theory Spec2Isabelle
  imports Complex_Main "HOL-Library.Signed_Division" "HOL-Library.Sublist"
begin

section \<open>Workshop stage timing analytics: the dashboard routes\<close>

text \<open>
  A shallow embedding of \<^verbatim>\<open>dashboardRoute.js\<close>: the duration formatter, the window
  generator, the four metric computations behind \<^verbatim>\<open>/dashboard/metrics\<close> and the
  live-status view.

  Conventions of the embedding.
  \<^item> A \<^verbatim>\<open>Date\<close> is its epoch value in milliseconds, an \<open>int\<close>; subtracting and comparing
    dates is subtracting and comparing these integers, as the source does.
  \<^item> Other JavaScript numbers (a total divided by a count) are exact rationals: the rounding
    of IEEE doubles is not part of the model. It matters in one place only:
    \<^verbatim>\<open>formatMilliseconds\<close> computes \<^verbatim>\<open>ms / 60000 * 60\<close>, which in exact arithmetic is
    \<^verbatim>\<open>ms / 1000\<close>.
  \<^item> A field that may be missing from a stored event is an \<open>option\<close>; \<open>None\<close> is
    JavaScript's \<^verbatim>\<open>undefined\<close>.
  \<^item> A thrown \<^verbatim>\<open>TypeError\<close> is the left summand of \<open>error + 'a\<close>.
  \<^item> \<^verbatim>\<open>Array.prototype.sort\<close> with the comparator \<^verbatim>\<open>a.timestamp - b.timestamp\<close> is the
    stable \<open>sort_key timestamp\<close>.
  \<^item> An object used as a table from stage names to buckets is a function from keys to
    buckets; the order of its keys (\<^verbatim>\<open>sortByStageOrder\<close>) is not represented, and
    keys are taken not to be names of members of \<^verbatim>\<open>Object.prototype\<close>.
  \<^item> The answer of \<^verbatim>\<open>Vehicle.find\<close> is an argument of each computation.
\<close>

subsection \<open>Numbers as text\<close>

definition digitChar :: "nat \<Rightarrow> char" where
  "digitChar d = ''0123456789'' ! d"

text \<open>\<^verbatim>\<open>Number.prototype.toString\<close> on an integer value.\<close>

function natToString :: "nat \<Rightarrow> string" where
  "natToString n =
     (if n < 10 then [digitChar n] else natToString (n div 10) @ [digitChar (n mod 10)])"
  by pat_completeness auto
termination
  by (relation "measure id") auto

declare natToString.simps [simp del]

definition toString :: "int \<Rightarrow> string" where
  "toString i = (if i < 0 then CHR ''-'' # natToString (nat (- i)) else natToString (nat i))"

definition padStart :: "nat \<Rightarrow> char \<Rightarrow> string \<Rightarrow> string" where
  "padStart n c s = replicate (n - length s) c @ s"

fun join :: "string \<Rightarrow> string list \<Rightarrow> string" where
  "join sep [] = []"
| "join sep [x] = x"
| "join sep (x # y # ys) = x @ sep @ join sep (y # ys)"

fun splitOn :: "char \<Rightarrow> string \<Rightarrow> string list" where
  "splitOn c [] = [[]]"
| "splitOn c (x # xs) =
     (if x = c then [] # splitOn c xs
      else (case splitOn c xs of [] \<Rightarrow> [[x]] | y # ys \<Rightarrow> (x # y) # ys))"

definition isDigit :: "char \<Rightarrow> bool" where
  "isDigit c = (c \<in> set ''0123456789'')"

definition digitVal :: "char \<Rightarrow> nat" where
  "digitVal c = of_char c - 48"

definition decimalValue :: "string \<Rightarrow> nat" where
  "decimalValue s = foldl (\<lambda>acc c. 10 * acc + digitVal c) 0 s"

text \<open>
  \<^verbatim>\<open>Number(s)\<close> on the strings the formatter can produce: the empty string is 0, a run of
  decimal digits with an optional sign is its value, and anything else is \<^verbatim>\<open>NaN\<close>
  (\<open>None\<close>).
\<close>

definition jsNumber :: "string \<Rightarrow> int option" where
  "jsNumber s =
     (if s = [] then Some 0
      else if list_all isDigit s then Some (int (decimalValue s))
      else (case s of
              c # r \<Rightarrow> if c = CHR ''-'' \<and> r \<noteq> [] \<and> list_all isDigit r
                       then Some (- int (decimalValue r)) else None
            | [] \<Rightarrow> None))"

subsection \<open>\<^verbatim>\<open>utils\<close>: the duration formatter\<close>

text \<open>
  \<^verbatim>\<open>%\<close> is the remainder that takes the sign of the dividend (\<open>smod\<close>);
  \<^verbatim>\<open>Math.floor(a / b)\<close> on integers is \<open>div\<close>.
\<close>

definition formatDuration :: "rat \<Rightarrow> string" where
  "formatDuration milliseconds =
     (let totalSeconds = \<lfloor>milliseconds / 1000\<rfloor>;
          hours = totalSeconds div 3600;
          mins = (totalSeconds smod 3600) div 60;
          secs = totalSeconds smod 60
      in join '':'' (map (\<lambda>n. padStart 2 (CHR ''0'') (toString n)) [hours, mins, secs]))"

definition formatMinutes :: "rat \<Rightarrow> string" where
  "formatMinutes minutes =
     (let totalSeconds = \<lfloor>minutes * 60\<rfloor>;
          hours = totalSeconds div 3600;
          mins = (totalSeconds smod 3600) div 60;
          secs = totalSeconds smod 60
      in join '':'' (map (\<lambda>n. padStart 2 (CHR ''0'') (toString n)) [hours, mins, secs]))"

definition formatMilliseconds :: "rat \<Rightarrow> string" where
  "formatMilliseconds ms = formatMinutes (ms / 60000)"

text \<open>
  The formatter applied to a value that may be \<^verbatim>\<open>NaN\<close>: every field is then the text
  \<^verbatim>\<open>NaN\<close>.
\<close>

definition formatNumber :: "rat option \<Rightarrow> string" where
  "formatNumber x = (case x of None \<Rightarrow> ''NaN:NaN:NaN'' | Some ms \<Rightarrow> formatDuration ms)"

text \<open>One field of the formatted duration.\<close>

definition field2 :: "int \<Rightarrow> string" where
  "field2 n = padStart 2 (CHR ''0'') (toString n)"

text \<open>
  The callback of \<^verbatim>\<open>items.reduce\<close> in the job-card metrics reads a duration back from
  its text: \<^verbatim>\<open>const [h, m, s] = d.duration.split(':').map(Number)\<close>, then
  \<^verbatim>\<open>(h * 3600 + m * 60 + s) * 1000\<close>. A missing or non-numeric field makes the value
  \<^verbatim>\<open>NaN\<close>.
\<close>

definition detailMs :: "string \<Rightarrow> int option" where
  "detailMs d =
     (case map jsNumber (splitOn (CHR '':'') d) of
        Some h # Some m # Some s # _ \<Rightarrow> Some ((h * 3600 + m * 60 + s) * 1000)
      | _ \<Rightarrow> None)"

subsection \<open>Vehicles and stage events\<close>

datatype eventType = Start | Pause | Resume | End

text \<open>
  One element of \<^verbatim>\<open>vehicle.stages\<close>. \<open>performedBy\<close> is the \<^verbatim>\<open>userName\<close> reached by
  \<^verbatim>\<open>performedBy?.userName\<close>.
\<close>

record stageEvent =
  stageName :: "string option"
  eventType :: "eventType option"
  timestamp :: int
  performedBy :: "string option"
  workType :: "string option"
  bayNumber :: "string option"

text \<open>
  \<open>vehicleNumber\<close> is a field of the vehicle document, of every detail record and of
  every live entry; the three records extend one parent that holds it.
\<close>

record numbered =
  vehicleNumber :: string

record vehicle = numbered +
  entryTime :: int
  exitTime :: "int option"
  stages :: "stageEvent list"

record detail = numbered +
  startTime :: int
  endTime :: int
  duration :: string

text \<open>
  The buckets. \<open>count\<close> and \<open>details\<close> occur in every bucket of every family, so they
  form the parent record; each family adds its own totals.
\<close>

record tally =
  count :: nat
  details :: "detail list"

record stageData = tally +
  totalDurationMs :: int

record specialData = stageData +
  totalDurationFormatted :: string
  averageMs :: rat
  averageFormatted :: string

record bayData = stageData +
  totalPausedDurationMs :: int
  totalActiveDurationMs :: int

record stageReport = tally +
  totalDuration :: string
  average :: string

record bayReport = stageReport +
  activeDuration :: string
  pausedDuration :: string

subsection \<open>Exceptions\<close>

datatype error = TypeError

definition bindE :: "error + 'a \<Rightarrow> ('a \<Rightarrow> error + 'b) \<Rightarrow> error + 'b" where
  "bindE m f = (case m of Inl e \<Rightarrow> Inl e | Inr x \<Rightarrow> f x)"

text \<open>\<^verbatim>\<open>filter\<close>, \<^verbatim>\<open>find\<close> and \<^verbatim>\<open>forEach\<close> with a callback that may throw.\<close>

fun filterE :: "('a \<Rightarrow> error + bool) \<Rightarrow> 'a list \<Rightarrow> error + 'a list" where
  "filterE p [] = Inr []"
| "filterE p (x # xs) =
     bindE (p x) (\<lambda>b. bindE (filterE p xs) (\<lambda>ys. Inr (if b then x # ys else ys)))"

fun findE :: "('a \<Rightarrow> error + bool) \<Rightarrow> 'a list \<Rightarrow> error + 'a option" where
  "findE p [] = Inr None"
| "findE p (x # xs) = bindE (p x) (\<lambda>b. if b then Inr (Some x) else findE p xs)"

fun forEachE :: "('a \<Rightarrow> 's \<Rightarrow> error + 's) \<Rightarrow> 'a list \<Rightarrow> 's \<Rightarrow> error + 's" where
  "forEachE f [] s = Inr s"
| "forEachE f (x # xs) s = bindE (f x s) (forEachE f xs)"

text \<open>
  \<^verbatim>\<open>s.stageName.startsWith(p)\<close>: reading \<^verbatim>\<open>startsWith\<close> of a missing name throws.
\<close>

definition startsWith :: "string option \<Rightarrow> string \<Rightarrow> error + bool" where
  "startsWith name p = (case name of None \<Rightarrow> Inl TypeError | Some n \<Rightarrow> Inr (prefix p n))"

text \<open>
  The callback \<^verbatim>\<open>s => s.stageName.startsWith(p) && s.eventType === "Start" && s.timestamp > t\<close>.
\<close>

definition startedAfter :: "string \<Rightarrow> int \<Rightarrow> stageEvent \<Rightarrow> error + bool" where
  "startedAfter p t s =
     bindE (startsWith (stageName s) p)
       (\<lambda>b. Inr (b \<and> eventType s = Some Start \<and> timestamp s > t))"

definition startedBefore :: "string \<Rightarrow> int \<Rightarrow> stageEvent \<Rightarrow> error + bool" where
  "startedBefore p t s =
     bindE (startsWith (stageName s) p)
       (\<lambda>b. Inr (b \<and> eventType s = Some Start \<and> timestamp s < t))"

definition startOfPrefix :: "string \<Rightarrow> stageEvent \<Rightarrow> error + bool" where
  "startOfPrefix p s =
     bindE (startsWith (stageName s) p) (\<lambda>b. Inr (b \<and> eventType s = Some Start))"

definition inWindow :: "int \<Rightarrow> int \<Rightarrow> stageEvent \<Rightarrow> bool" where
  "inWindow start end' s = (timestamp s \<ge> start \<and> timestamp s \<le> end')"

subsection \<open>\<^verbatim>\<open>calculateStageAverages\<close>\<close>

definition trackedStages :: "string list" where
  "trackedStages =
     [''Interactive Bay'',
      ''Job Card Creation + Customer Approval'',
      ''Job Card Received + Bay Allocation'',
      ''Bay Work'',
      ''Additional Work Job Approval'',
      ''Creation of Parts Estimate'',
      ''Final Inspection'',
      ''Ready for Washing'',
      ''Washing'']"

definition emptyStageData :: stageData where
  "emptyStageData = \<lparr>count = 0, details = [], totalDurationMs = 0\<rparr>"

text \<open>The body of \<^verbatim>\<open>starts.forEach\<close>, on the bucket \<^verbatim>\<open>result[period][stageName]\<close>.\<close>

definition recordStage :: "string \<Rightarrow> stageEvent list \<Rightarrow> stageData \<Rightarrow> stageEvent \<Rightarrow> stageData" where
  "recordStage vn ends b startEvent =
     (case find (\<lambda>e. timestamp e > timestamp startEvent) ends of
        None \<Rightarrow> b
      | Some endEvent \<Rightarrow>
          (let durationMs = timestamp endEvent - timestamp startEvent
           in b\<lparr>totalDurationMs := totalDurationMs b + durationMs,
                count := count b + 1,
                details := details b @
                  [\<lparr>vehicleNumber = vn,
                    startTime = timestamp startEvent,
                    endTime = timestamp endEvent,
                    duration = formatMilliseconds (of_int durationMs)\<rparr>]\<rparr>))"

text \<open>The body of \<^verbatim>\<open>trackedStages.forEach\<close> for one vehicle.\<close>

definition stageStep ::
  "int \<Rightarrow> int \<Rightarrow> vehicle \<Rightarrow> (string \<Rightarrow> stageData) \<Rightarrow> string \<Rightarrow> (string \<Rightarrow> stageData)" where
  "stageStep start end' v result name =
     (let stageEvents =
            sort_key timestamp
              (filter (\<lambda>s. stageName s = Some name \<and> timestamp s \<ge> start \<and> timestamp s \<le> end')
                 (stages v));
          starts = filter (\<lambda>e. eventType e = Some Start) stageEvents;
          ends = filter (\<lambda>e. eventType e = Some End) stageEvents
      in result(name := foldl (recordStage (vehicleNumber v) ends) (result name) starts))"

text \<open>
  The loop over the vehicles of one period. Only the keys of \<open>trackedStages\<close> are ever
  read or written.
\<close>

definition stageTotals :: "int \<Rightarrow> int \<Rightarrow> vehicle list \<Rightarrow> (string \<Rightarrow> stageData)" where
  "stageTotals start end' vehicles =
     foldl (\<lambda>result v. foldl (stageStep start end' v) result trackedStages)
       (\<lambda>_. emptyStageData) vehicles"

definition formatStage :: "stageData \<Rightarrow> stageReport" where
  "formatStage stageData =
     (let avg = (if count stageData > 0
                 then formatMilliseconds
                        (of_int (totalDurationMs stageData) / of_nat (count stageData))
                 else ''00:00:00'')
      in \<lparr>count = count stageData,
          details = details stageData,
          totalDuration = formatMilliseconds (of_int (totalDurationMs stageData)),
          average = avg\<rparr>)"

text \<open>
  One period of the answer of \<^verbatim>\<open>calculateStageAverages\<close>: the table
  \<^verbatim>\<open>formattedResult[period]\<close>, with one entry for each tracked stage.
\<close>

definition stageAveragesOfPeriod ::
  "int \<Rightarrow> int \<Rightarrow> vehicle list \<Rightarrow> (string \<rightharpoonup> stageReport)" where
  "stageAveragesOfPeriod start end' vehicles name =
     (if name \<in> set trackedStages
      then Some (formatStage (stageTotals start end' vehicles name)) else None)"

subsection \<open>\<^verbatim>\<open>calculateSpecialStageAverages\<close>\<close>

definition specialStages :: "string list" where
  "specialStages =
     [''Job Card Creation + Customer Approval'',
      ''Additional Work Job Approval'',
      ''Ready for Washing'']"

definition emptySpecialData :: specialData where
  "emptySpecialData =
     \<lparr>count = 0, details = [], totalDurationMs = 0,
      totalDurationFormatted = ''00:00:00'', averageMs = 0,
      averageFormatted = ''00:00:00''\<rparr>"

text \<open>The three statements that add one closed occurrence to a bucket.\<close>

definition addSpecial :: "string \<Rightarrow> stageEvent \<Rightarrow> stageEvent \<Rightarrow> specialData \<Rightarrow> specialData" where
  "addSpecial vn startEvent endEvent b =
     (let duration = timestamp endEvent - timestamp startEvent
      in b\<lparr>totalDurationMs := totalDurationMs b + duration,
           count := count b + 1,
           details := details b @
             [\<lparr>vehicleNumber = vn,
               startTime = timestamp startEvent,
               endTime = timestamp endEvent,
               duration = formatDuration (of_int duration)\<rparr>]\<rparr>)"

text \<open>The body of \<^verbatim>\<open>jobCardStarts.forEach\<close>.\<close>

definition jobCardCreationStep ::
  "string \<Rightarrow> stageEvent list \<Rightarrow> stageEvent \<Rightarrow> (string \<Rightarrow> specialData)
     \<Rightarrow> error + (string \<Rightarrow> specialData)" where
  "jobCardCreationStep vn vehicleStages startEvent result =
     bindE (findE (startedAfter ''Job Card Received + Bay Allocation'' (timestamp startEvent))
              vehicleStages)
       (\<lambda>found. case found of
           None \<Rightarrow> Inr result
         | Some endEvent \<Rightarrow>
             Inr (result(''Job Card Creation + Customer Approval'' :=
                    addSpecial vn startEvent endEvent
                      (result ''Job Card Creation + Customer Approval''))))"

text \<open>The body of \<^verbatim>\<open>additionalApprovalStarts.forEach\<close>.\<close>

definition additionalApprovalStep ::
  "string \<Rightarrow> stageEvent list \<Rightarrow> stageEvent \<Rightarrow> (string \<Rightarrow> specialData)
     \<Rightarrow> error + (string \<Rightarrow> specialData)" where
  "additionalApprovalStep vn vehicleStages startEvent result =
     bindE (filterE (startedAfter ''Job Card Received + Bay Allocation'' (timestamp startEvent))
              vehicleStages)
       (\<lambda>subsequentBayAllocations.
          if length subsequentBayAllocations \<ge> 2
          then (let endEvent = subsequentBayAllocations ! 1
                in Inr (result(''Additional Work Job Approval'' :=
                          addSpecial vn startEvent endEvent
                            (result ''Additional Work Job Approval''))))
          else Inr result)"

text \<open>The body of \<^verbatim>\<open>washingReadyStarts.forEach\<close>; nothing in it can throw.\<close>

definition readyForWashingStep ::
  "string \<Rightarrow> stageEvent list \<Rightarrow> (string \<Rightarrow> specialData) \<Rightarrow> stageEvent
     \<Rightarrow> (string \<Rightarrow> specialData)" where
  "readyForWashingStep vn vehicleStages result startEvent =
     (case find (\<lambda>s. stageName s = Some ''Washing'' \<and> eventType s = Some Start
                       \<and> timestamp s > timestamp startEvent) vehicleStages of
        None \<Rightarrow> result
      | Some endEvent \<Rightarrow>
          result(''Ready for Washing'' :=
            addSpecial vn startEvent endEvent (result ''Ready for Washing'')))"

text \<open>The body of \<^verbatim>\<open>vehicles.forEach\<close>.\<close>

definition specialVehicle ::
  "int \<Rightarrow> int \<Rightarrow> vehicle \<Rightarrow> (string \<Rightarrow> specialData) \<Rightarrow> error + (string \<Rightarrow> specialData)" where
  "specialVehicle start end' v result =
     (let vehicleStages = sort_key timestamp (filter (inWindow start end') (stages v));
          vn = vehicleNumber v;
          jobCardStarts =
            filter (\<lambda>s. stageName s = Some ''Job Card Creation + Customer Approval''
                         \<and> eventType s = Some Start) vehicleStages
      in bindE (forEachE (jobCardCreationStep vn vehicleStages) jobCardStarts result)
           (\<lambda>result1.
              bindE (filterE (startOfPrefix ''Additional Work Job Approval'') vehicleStages)
                (\<lambda>additionalApprovalStarts.
                   bindE (forEachE (additionalApprovalStep vn vehicleStages)
                            additionalApprovalStarts result1)
                     (\<lambda>result2.
                        (let washingReadyStarts =
                               filter (\<lambda>s. stageName s = Some ''Ready for Washing''
                                            \<and> eventType s = Some Start) vehicleStages
                         in Inr (foldl (readyForWashingStep vn vehicleStages) result2
                                   washingReadyStarts))))))"

text \<open>The averages, computed once the vehicles of the period are processed.\<close>

definition finishSpecial :: "specialData \<Rightarrow> specialData" where
  "finishSpecial stageData =
     (if count stageData > 0
      then (let avg = of_int (totalDurationMs stageData) / of_nat (count stageData)
            in stageData\<lparr>averageMs := avg,
                 totalDurationFormatted := formatDuration (of_int (totalDurationMs stageData)),
                 averageFormatted := formatDuration avg\<rparr>)
      else stageData)"

definition specialTotals ::
  "int \<Rightarrow> int \<Rightarrow> vehicle list \<Rightarrow> error + (string \<Rightarrow> specialData)" where
  "specialTotals start end' vehicles =
     bindE (forEachE (specialVehicle start end') vehicles (\<lambda>_. emptySpecialData))
       (\<lambda>result.
          Inr (foldl (\<lambda>r name. r(name := finishSpecial (r name))) result specialStages))"

definition reportSpecial :: "specialData \<Rightarrow> stageReport" where
  "reportSpecial stageData =
     \<lparr>count = count stageData,
      details = details stageData,
      totalDuration = totalDurationFormatted stageData,
      average = averageFormatted stageData\<rparr>"

text \<open>One period of the answer of \<^verbatim>\<open>calculateSpecialStageAverages\<close>:
  \<^verbatim>\<open>formattedResult[period]\<close>.\<close>

definition specialAveragesOfPeriod ::
  "int \<Rightarrow> int \<Rightarrow> vehicle list \<Rightarrow> error + (string \<rightharpoonup> stageReport)" where
  "specialAveragesOfPeriod start end' vehicles =
     bindE (specialTotals start end' vehicles)
       (\<lambda>result. Inr (\<lambda>name. if name \<in> set specialStages
                               then Some (reportSpecial (result name)) else None))"

subsection \<open>\<^verbatim>\<open>calculateJobCardReceivedMetrics\<close>\<close>

record jobCardResult =
  jobCardReceivedBayAllocation :: stageReport
  jobCardReceivedByTechnician :: stageReport
  jobCardReceivedByFI :: stageReport

definition emptyReport :: stageReport where
  "emptyReport =
     \<lparr>count = 0, details = [], totalDuration = ''00:00:00'', average = ''00:00:00''\<rparr>"

definition emptyJobCardResult :: jobCardResult where
  "emptyJobCardResult =
     \<lparr>jobCardReceivedBayAllocation = emptyReport,
      jobCardReceivedByTechnician = emptyReport,
      jobCardReceivedByFI = emptyReport\<rparr>"

text \<open>
  The detail record built in each of the three loops, from the vehicle number and the two
  events whose timestamps become \<^verbatim>\<open>startTime\<close> and \<^verbatim>\<open>endTime\<close>.
\<close>

definition intervalDetail :: "string \<Rightarrow> stageEvent \<Rightarrow> stageEvent \<Rightarrow> detail" where
  "intervalDetail vn earlier later =
     (let duration = timestamp later - timestamp earlier
      in \<lparr>vehicleNumber = vn,
          startTime = timestamp earlier,
          endTime = timestamp later,
          duration = formatDuration (of_int duration)\<rparr>)"

definition pushDetail :: "detail \<Rightarrow> stageReport \<Rightarrow> stageReport" where
  "pushDetail d b = b\<lparr>details := details b @ [d]\<rparr>"

text \<open>The body of the loop over \<^verbatim>\<open>jcReceivedStarts\<close>.\<close>

definition bayAllocationStep ::
  "string \<Rightarrow> stageEvent list \<Rightarrow> stageEvent \<Rightarrow> jobCardResult \<Rightarrow> error + jobCardResult" where
  "bayAllocationStep vn vehicleStages startEvent result =
     bindE (findE (startedAfter ''Bay Work'' (timestamp startEvent)) vehicleStages)
       (\<lambda>found. case found of
           None \<Rightarrow> Inr result
         | Some nextBayWork \<Rightarrow>
             Inr (result\<lparr>jobCardReceivedBayAllocation :=
                    pushDetail (intervalDetail vn startEvent nextBayWork)
                      (jobCardReceivedBayAllocation result)\<rparr>))"

text \<open>The body of the loop over \<^verbatim>\<open>technicianStarts\<close>.\<close>

definition technicianStep ::
  "string \<Rightarrow> stageEvent list \<Rightarrow> stageEvent \<Rightarrow> jobCardResult \<Rightarrow> error + jobCardResult" where
  "technicianStep vn vehicleStages technicianEvent result =
     bindE (findE (startedBefore ''Job Card Received + Bay Allocation''
                     (timestamp technicianEvent)) vehicleStages)
       (\<lambda>found. case found of
           None \<Rightarrow> Inr result
         | Some previousStage \<Rightarrow>
             Inr (result\<lparr>jobCardReceivedByTechnician :=
                    pushDetail (intervalDetail vn previousStage technicianEvent)
                      (jobCardReceivedByTechnician result)\<rparr>))"

text \<open>The body of the loop over \<^verbatim>\<open>fiStarts\<close>; nothing in it can throw.\<close>

definition fiStep ::
  "string \<Rightarrow> stageEvent list \<Rightarrow> jobCardResult \<Rightarrow> stageEvent \<Rightarrow> jobCardResult" where
  "fiStep vn vehicleStages result fiEvent =
     (case find (\<lambda>s. stageName s = Some ''Job Card Received (by Technician)''
                       \<and> eventType s = Some Start
                       \<and> timestamp s < timestamp fiEvent) vehicleStages of
        None \<Rightarrow> result
      | Some previousTechnicianStage \<Rightarrow>
          result\<lparr>jobCardReceivedByFI :=
            pushDetail (intervalDetail vn previousTechnicianStage fiEvent)
              (jobCardReceivedByFI result)\<rparr>)"

text \<open>The body of the loop over the vehicles. The events are filtered, not sorted.\<close>

definition jobCardVehicle ::
  "int \<Rightarrow> int \<Rightarrow> vehicle \<Rightarrow> jobCardResult \<Rightarrow> error + jobCardResult" where
  "jobCardVehicle start end' v result =
     (let vehicleStages = filter (inWindow start end') (stages v);
          vn = vehicleNumber v
      in bindE (filterE (startOfPrefix ''Job Card Received + Bay Allocation'') vehicleStages)
           (\<lambda>jcReceivedStarts.
              bindE (forEachE (bayAllocationStep vn vehicleStages) jcReceivedStarts result)
                (\<lambda>result1.
                   (let technicianStarts =
                          filter (\<lambda>s. stageName s = Some ''Job Card Received (by Technician)''
                                       \<and> eventType s = Some Start) vehicleStages
                    in bindE (forEachE (technicianStep vn vehicleStages) technicianStarts result1)
                         (\<lambda>result2.
                            (let fiStarts =
                                   filter (\<lambda>s. stageName s = Some ''Job Card Received (by FI)''
                                                \<and> eventType s = Some Start) vehicleStages
                             in Inr (foldl (fiStep vn vehicleStages) result2 fiStarts)))))))"

text \<open>
  ``Final formatting'': the count is the number of details and the total is read back from
  the formatted durations of the details. \<open>None\<close> is \<^verbatim>\<open>NaN\<close>.
\<close>

definition addNumber :: "int option \<Rightarrow> int option \<Rightarrow> int option" where
  "addNumber a b = (case (a, b) of (Some x, Some y) \<Rightarrow> Some (x + y) | _ \<Rightarrow> None)"

definition totalOfDetails :: "detail list \<Rightarrow> int option" where
  "totalOfDetails items = foldl (\<lambda>sum d. addNumber sum (detailMs (duration d))) (Some 0) items"

definition finishJobCard :: "stageReport \<Rightarrow> stageReport" where
  "finishJobCard b =
     (let items = details b; n = length items
      in if n > 0
         then (let totalMs = totalOfDetails items;
                   avgMs = map_option (\<lambda>t. of_int t / of_nat n) totalMs
               in b\<lparr>count := n,
                    totalDuration := formatNumber (map_option of_int totalMs),
                    average := formatNumber avgMs\<rparr>)
         else b)"

text \<open>One period of the answer of \<^verbatim>\<open>calculateJobCardReceivedMetrics\<close>.\<close>

definition jobCardMetricsOfPeriod ::
  "int \<Rightarrow> int \<Rightarrow> vehicle list \<Rightarrow> error + jobCardResult" where
  "jobCardMetricsOfPeriod start end' vehicles =
     bindE (forEachE (jobCardVehicle start end') vehicles emptyJobCardResult)
       (\<lambda>result.
          Inr \<lparr>jobCardReceivedBayAllocation = finishJobCard (jobCardReceivedBayAllocation result),
               jobCardReceivedByTechnician = finishJobCard (jobCardReceivedByTechnician result),
               jobCardReceivedByFI = finishJobCard (jobCardReceivedByFI result)\<rparr>)"

subsection \<open>\<^verbatim>\<open>calculateBayWorkMetrics\<close>\<close>

record 'b bayResult =
  byWorkType :: "string \<rightharpoonup> 'b"
  overall :: 'b

definition emptyBayData :: bayData where
  "emptyBayData =
     \<lparr>count = 0, details = [], totalDurationMs = 0,
      totalPausedDurationMs = 0, totalActiveDurationMs = 0\<rparr>"

text \<open>
  \<^verbatim>\<open>workGroups\<close>: an object keyed by \<^verbatim>\<open>`${workType}-${bayNumber}`\<close>, kept as the list of
  its entries in insertion order; a group is its \<^verbatim>\<open>workType\<close>, \<^verbatim>\<open>bayNumber\<close> and
  \<^verbatim>\<open>stages\<close>. An event whose \<^verbatim>\<open>workType\<close> or \<^verbatim>\<open>bayNumber\<close> is missing or empty is
  skipped.
\<close>

type_synonym workGroup = "string \<times> string \<times> stageEvent list"

fun pushStage ::
  "string \<Rightarrow> string \<Rightarrow> string \<Rightarrow> stageEvent \<Rightarrow> (string \<times> workGroup) list
     \<Rightarrow> (string \<times> workGroup) list" where
  "pushStage key w b s [] = [(key, (w, b, [s]))]"
| "pushStage key w b s ((k, (w', b', ss)) # groups) =
     (if k = key then (k, (w', b', ss @ [s])) # groups
      else (k, (w', b', ss)) # pushStage key w b s groups)"

definition groupStage :: "(string \<times> workGroup) list \<Rightarrow> stageEvent \<Rightarrow> (string \<times> workGroup) list" where
  "groupStage workGroups stage =
     (case (workType stage, bayNumber stage) of
        (Some w, Some b) \<Rightarrow>
          if w = [] \<or> b = [] then workGroups
          else pushStage (w @ ''-'' @ b) w b stage workGroups
      | _ \<Rightarrow> workGroups)"

definition workGroupsOf :: "stageEvent list \<Rightarrow> (string \<times> workGroup) list" where
  "workGroupsOf bayWorkStages = foldl groupStage [] bayWorkStages"

text \<open>
  The loop over \<^verbatim>\<open>subsequent\<close>: the last marker, the paused and the active time and the
  state, and as result the \<^verbatim>\<open>End\<close> event found (if any) with the two accumulated times.
\<close>

datatype walkState = Active | Paused

fun walk ::
  "stageEvent list \<Rightarrow> int \<Rightarrow> int \<Rightarrow> int \<Rightarrow> walkState \<Rightarrow> stageEvent option \<times> int \<times> int" where
  "walk [] lastTime paused active state = (None, paused, active)"
| "walk (e # es) lastTime paused active state =
     (let duration = timestamp e - lastTime;
          active' = (if state = Active then active + duration else active);
          paused' = (if state = Active then paused else paused + duration)
      in if eventType e = Some Pause then walk es (timestamp e) paused' active' Paused
         else if eventType e = Some Resume then walk es (timestamp e) paused' active' Active
         else if eventType e = Some End then (Some e, paused', active')
         else walk es (timestamp e) paused' active' state)"

text \<open>One \<^verbatim>\<open>Start\<close> event of a group: the events after it, sorted, and the walk.\<close>

definition bayOccurrence :: "stageEvent list \<Rightarrow> stageEvent \<Rightarrow> stageEvent option \<times> int \<times> int" where
  "bayOccurrence stages' startEvent =
     (let subsequent =
            sort_key timestamp
              (filter (\<lambda>s. timestamp s > timestamp startEvent
                           \<and> eventType s \<in> set [Some Pause, Some Resume, Some End]) stages')
      in walk subsequent (timestamp startEvent) 0 0 Active)"

definition addBay :: "detail \<Rightarrow> int \<Rightarrow> int \<Rightarrow> int \<Rightarrow> bayData \<Rightarrow> bayData" where
  "addBay d total' paused active b =
     b\<lparr>totalDurationMs := totalDurationMs b + total',
       totalPausedDurationMs := totalPausedDurationMs b + paused,
       totalActiveDurationMs := totalActiveDurationMs b + active,
       count := count b + 1,
       details := details b @ [d]\<rparr>"

text \<open>
  The body of \<^verbatim>\<open>starts.forEach\<close>, on the bucket of the group's work type and the overall
  bucket.
\<close>

definition recordBay ::
  "string \<Rightarrow> stageEvent list \<Rightarrow> bayData \<times> bayData \<Rightarrow> stageEvent \<Rightarrow> bayData \<times> bayData" where
  "recordBay vn stages' buckets startEvent =
     (case bayOccurrence stages' startEvent of
        (None, paused, active) \<Rightarrow> buckets
      | (Some endEvent, paused, active) \<Rightarrow>
          (let total' = timestamp endEvent - timestamp startEvent;
               d = \<lparr>vehicleNumber = vn,
                    startTime = timestamp startEvent,
                    endTime = timestamp endEvent,
                    duration = formatDuration (of_int total')\<rparr>
           in (addBay d total' paused active (fst buckets),
               addBay d total' paused active (snd buckets))))"

text \<open>
  The body of the loop over the groups: the bucket of the work type is created when it is
  not there yet.
\<close>

definition groupStep :: "string \<Rightarrow> bayData bayResult \<Rightarrow> workGroup \<Rightarrow> bayData bayResult" where
  "groupStep vn result workGroup =
     (case workGroup of (w, b, stages') \<Rightarrow>
        (let bucket = (case byWorkType result w of None \<Rightarrow> emptyBayData | Some d \<Rightarrow> d);
             starts = filter (\<lambda>s. eventType s = Some Start) stages';
             buckets = foldl (recordBay vn stages') (bucket, overall result) starts
         in \<lparr>byWorkType = (byWorkType result)(w \<mapsto> fst buckets),
             overall = snd buckets\<rparr>))"

text \<open>The body of the loop over the vehicles; the first filter reads every stage name.\<close>

definition bayVehicle ::
  "int \<Rightarrow> int \<Rightarrow> vehicle \<Rightarrow> bayData bayResult \<Rightarrow> error + bayData bayResult" where
  "bayVehicle start end' v result =
     bindE (filterE (\<lambda>s. bindE (startsWith (stageName s) ''Bay Work:'')
                            (\<lambda>b. Inr (b \<and> timestamp s \<ge> start \<and> timestamp s \<le> end')))
              (stages v))
       (\<lambda>inRange.
          (let bayWorkStages = sort_key timestamp inRange;
               workGroups = workGroupsOf bayWorkStages
           in Inr (foldl (groupStep (vehicleNumber v)) result (map snd workGroups))))"

definition bayTotals :: "int \<Rightarrow> int \<Rightarrow> vehicle list \<Rightarrow> error + bayData bayResult" where
  "bayTotals start end' vehicles =
     forEachE (bayVehicle start end') vehicles
       \<lparr>byWorkType = Map.empty, overall = emptyBayData\<rparr>"

definition formatBay :: "bayData \<Rightarrow> bayReport" where
  "formatBay d =
     \<lparr>count = count d,
      details = details d,
      totalDuration = formatDuration (of_int (totalDurationMs d)),
      average = (if count d > 0
                 then formatDuration (of_int (totalActiveDurationMs d) / of_nat (count d))
                 else ''00:00:00''),
      activeDuration = formatDuration (of_int (totalActiveDurationMs d)),
      pausedDuration = formatDuration (of_int (totalPausedDurationMs d))\<rparr>"

text \<open>One period of the answer of \<^verbatim>\<open>calculateBayWorkMetrics\<close>.\<close>

definition bayWorkMetricsOfPeriod ::
  "int \<Rightarrow> int \<Rightarrow> vehicle list \<Rightarrow> error + bayReport bayResult" where
  "bayWorkMetricsOfPeriod start end' vehicles =
     bindE (bayTotals start end' vehicles)
       (\<lambda>result.
          Inr \<lparr>byWorkType = (\<lambda>w. map_option formatBay (byWorkType result w)),
               overall = formatBay (overall result)\<rparr>)"

subsection \<open>Dates\<close>

text \<open>
  The \<^verbatim>\<open>Date\<close> operations that \<^verbatim>\<open>getDateRanges\<close> uses, for a local time zone at a fixed
  offset \<open>tz\<close> (in milliseconds) from UTC. \<open>daysFromCivil\<close> and \<open>civilFromDays\<close>
  convert between a day number (days since 1 January 1970) and a date of the proleptic
  Gregorian calendar with months 1 to 12.
\<close>

definition msPerDay :: int where
  "msPerDay = 86400000"

definition daysFromCivil :: "int \<Rightarrow> int \<Rightarrow> int \<Rightarrow> int" where
  "daysFromCivil y m d =
     (let y' = (if m \<le> 2 then y - 1 else y);
          era = y' div 400;
          yoe = y' - era * 400;
          doy = (153 * (if m > 2 then m - 3 else m + 9) + 2) div 5 + d - 1;
          doe = yoe * 365 + yoe div 4 - yoe div 100 + doy
      in era * 146097 + doe - 719468)"

definition civilFromDays :: "int \<Rightarrow> int \<times> int \<times> int" where
  "civilFromDays z =
     (let z' = z + 719468;
          era = z' div 146097;
          doe = z' - era * 146097;
          yoe = (doe - doe div 1460 + doe div 36524 - doe div 146096) div 365;
          doy = doe - (365 * yoe + yoe div 4 - yoe div 100);
          mp = (5 * doy + 2) div 153;
          d = doy - (153 * mp + 2) div 5 + 1;
          m = (if mp < 10 then mp + 3 else mp - 9)
      in (if m \<le> 2 then yoe + era * 400 + 1 else yoe + era * 400, m, d))"

definition localDay :: "int \<Rightarrow> int \<Rightarrow> int" where
  "localDay tz t = (t + tz) div msPerDay"

definition getFullYear :: "int \<Rightarrow> int \<Rightarrow> int" where
  "getFullYear tz t = fst (civilFromDays (localDay tz t))"

text \<open>\<^verbatim>\<open>getMonth\<close> counts months from 0.\<close>

definition getMonth :: "int \<Rightarrow> int \<Rightarrow> int" where
  "getMonth tz t = fst (snd (civilFromDays (localDay tz t))) - 1"

definition getDate :: "int \<Rightarrow> int \<Rightarrow> int" where
  "getDate tz t = snd (snd (civilFromDays (localDay tz t)))"

text \<open>\<^verbatim>\<open>getDay\<close>: 0 is Sunday; 1 January 1970 was a Thursday.\<close>

definition getDay :: "int \<Rightarrow> int \<Rightarrow> int" where
  "getDay tz t = (localDay tz t + 4) mod 7"

text \<open>
  \<^verbatim>\<open>new Date(year, month, day)\<close>: local midnight; a month outside 0 to 11 carries into the
  year and a day outside the month carries into the neighbouring months.
\<close>

definition newDate :: "int \<Rightarrow> int \<Rightarrow> int \<Rightarrow> int \<Rightarrow> int" where
  "newDate tz y m d =
     (daysFromCivil (y + m div 12) (m mod 12 + 1) 1 + d - 1) * msPerDay - tz"

text \<open>\<^verbatim>\<open>setHours(0, 0, 0, 0)\<close>: local midnight of the same day.\<close>

definition setHours0 :: "int \<Rightarrow> int \<Rightarrow> int" where
  "setHours0 tz t = localDay tz t * msPerDay - tz"

text \<open>\<^verbatim>\<open>setDate(d)\<close>: the day of the month is replaced, the time of day is kept.\<close>

definition setDate :: "int \<Rightarrow> int \<Rightarrow> int \<Rightarrow> int" where
  "setDate tz t d =
     newDate tz (getFullYear tz t) (getMonth tz t) d + (t + tz) mod msPerDay"

subsection \<open>\<^verbatim>\<open>utils.getDateRanges\<close>\<close>

text \<open>
  A range \<^verbatim>\<open>{ start, end }\<close>. The fields are called \<open>rangeStart\<close> and \<open>rangeEnd\<close>
  here, since \<open>start\<close> and \<open>end'\<close> name the bounds taken out of a range throughout.
\<close>

record dateRange =
  rangeStart :: int
  rangeEnd :: int

datatype period = today | thisWeek | thisMonth | lastMonth

definition timePeriods :: "period list" where
  "timePeriods = [today, thisWeek, thisMonth, lastMonth]"

text \<open>
  The clock is the sequence of the values that successive \<^verbatim>\<open>new Date()\<close> calls return;
  the state is the number of calls made so far. \<open>getDateRanges\<close> returns the ranges and
  the new state. \<^verbatim>\<open>now\<close> is a mutable object: \<^verbatim>\<open>setHours\<close> and \<^verbatim>\<open>setDate\<close> change it
  and return its new value, so the later statements read the changed \<^verbatim>\<open>now\<close>.
\<close>

definition getDateRanges :: "int \<Rightarrow> (nat \<Rightarrow> int) \<Rightarrow> nat \<Rightarrow> (period \<Rightarrow> dateRange) \<times> nat" where
  "getDateRanges tz clock k =
     (let now0 = clock k;
          now1 = setHours0 tz now0;
          startOfDay = now1;
          now2 = setDate tz now1 (getDate tz now1 - getDay tz now1);
          startOfWeek = now2;
          startOfMonth = newDate tz (getFullYear tz now2) (getMonth tz now2) 1;
          startOfLastMonth = newDate tz (getFullYear tz now2) (getMonth tz now2 - 1) 1;
          endOfLastMonth = newDate tz (getFullYear tz now2) (getMonth tz now2) 0;
          todayEnd = clock (k + 1);
          thisWeekEnd = clock (k + 2);
          thisMonthEnd = clock (k + 3)
      in (\<lambda>p. case p of
                 today \<Rightarrow> \<lparr>rangeStart = startOfDay, rangeEnd = todayEnd\<rparr>
               | thisWeek \<Rightarrow> \<lparr>rangeStart = startOfWeek, rangeEnd = thisWeekEnd\<rparr>
               | thisMonth \<Rightarrow> \<lparr>rangeStart = startOfMonth, rangeEnd = thisMonthEnd\<rparr>
               | lastMonth \<Rightarrow> \<lparr>rangeStart = startOfLastMonth, rangeEnd = endOfLastMonth\<rparr>,
          k + 4))"

subsection \<open>The four computations over all periods, and \<^verbatim>\<open>/dashboard/metrics\<close>\<close>

text \<open>
  The answers of the four \<^verbatim>\<open>Vehicle.find\<close> queries, one for each computation, as
  functions of the bounds of the window.
\<close>

record store =
  findTracked :: "int \<Rightarrow> int \<Rightarrow> vehicle list"
  findSpecial :: "int \<Rightarrow> int \<Rightarrow> vehicle list"
  findInWindow :: "int \<Rightarrow> int \<Rightarrow> vehicle list"
  findBayWork :: "int \<Rightarrow> int \<Rightarrow> vehicle list"

text \<open>
  \<^verbatim>\<open>for (const period of timePeriods)\<close> with a body that may throw: the periods are
  processed in order and the first exception ends the loop.
\<close>

definition forPeriods :: "(period \<Rightarrow> error + 'a) \<Rightarrow> error + (period \<Rightarrow> 'a)" where
  "forPeriods f =
     bindE (f today) (\<lambda>a.
     bindE (f thisWeek) (\<lambda>b.
     bindE (f thisMonth) (\<lambda>c.
     bindE (f lastMonth) (\<lambda>d.
       Inr (\<lambda>p. case p of today \<Rightarrow> a | thisWeek \<Rightarrow> b | thisMonth \<Rightarrow> c | lastMonth \<Rightarrow> d)))))"

definition calculateStageAverages ::
  "store \<Rightarrow> (period \<Rightarrow> dateRange) \<Rightarrow> period \<Rightarrow> (string \<rightharpoonup> stageReport)" where
  "calculateStageAverages db dateRanges p =
     (let r = dateRanges p
      in stageAveragesOfPeriod (rangeStart r) (rangeEnd r) (findTracked db (rangeStart r) (rangeEnd r)))"

definition calculateSpecialStageAverages ::
  "store \<Rightarrow> (period \<Rightarrow> dateRange) \<Rightarrow> error + (period \<Rightarrow> (string \<rightharpoonup> stageReport))" where
  "calculateSpecialStageAverages db dateRanges =
     forPeriods (\<lambda>p. let r = dateRanges p
                      in specialAveragesOfPeriod (rangeStart r) (rangeEnd r)
                           (findSpecial db (rangeStart r) (rangeEnd r)))"

definition calculateJobCardReceivedMetrics ::
  "store \<Rightarrow> (period \<Rightarrow> dateRange) \<Rightarrow> error + (period \<Rightarrow> jobCardResult)" where
  "calculateJobCardReceivedMetrics db dateRanges =
     forPeriods (\<lambda>p. let r = dateRanges p
                      in jobCardMetricsOfPeriod (rangeStart r) (rangeEnd r)
                           (findInWindow db (rangeStart r) (rangeEnd r)))"

definition calculateBayWorkMetrics ::
  "store \<Rightarrow> (period \<Rightarrow> dateRange) \<Rightarrow> error + (period \<Rightarrow> bayReport bayResult)" where
  "calculateBayWorkMetrics db dateRanges =
     forPeriods (\<lambda>p. let r = dateRanges p
                      in bayWorkMetricsOfPeriod (rangeStart r) (rangeEnd r)
                           (findBayWork db (rangeStart r) (rangeEnd r)))"

text \<open>
  The route. \<open>Response200\<close> carries the \<^verbatim>\<open>data\<close> of the answer; \<open>Response500\<close> is the
  answer of \<^verbatim>\<open>utils.handleError\<close>, whose \<^verbatim>\<open>data\<close> holds the error message only. A
  metric that was not requested stays \<^verbatim>\<open>undefined\<close> (\<open>None\<close>).
\<close>

record metrics =
  stageAverages :: "(period \<Rightarrow> (string \<rightharpoonup> stageReport)) option"
  specialStageAverages :: "(period \<Rightarrow> (string \<rightharpoonup> stageReport)) option"
  jobCardReceivedMetrics :: "(period \<Rightarrow> jobCardResult) option"
  bayWorkMetrics :: "(period \<Rightarrow> bayReport bayResult) option"

datatype response = Response200 metrics | Response500 error

definition requested :: "string \<Rightarrow> string \<Rightarrow> (error + 'a) \<Rightarrow> error + 'a option" where
  "requested metricType name compute =
     (if metricType = ''all'' \<or> metricType = name
      then bindE compute (\<lambda>x. Inr (Some x)) else Inr None)"

definition metricsRoute :: "int \<Rightarrow> (nat \<Rightarrow> int) \<Rightarrow> nat \<Rightarrow> store \<Rightarrow> string \<Rightarrow> response" where
  "metricsRoute tz clock k db metricType =
     (let dateRanges = fst (getDateRanges tz clock k);
          answer =
            bindE (requested metricType ''stage-averages''
                     (Inr (calculateStageAverages db dateRanges))) (\<lambda>a.
            bindE (requested metricType ''special-stage-averages''
                     (calculateSpecialStageAverages db dateRanges)) (\<lambda>b.
            bindE (requested metricType ''job-card-received''
                     (calculateJobCardReceivedMetrics db dateRanges)) (\<lambda>c.
            bindE (requested metricType ''bay-work''
                     (calculateBayWorkMetrics db dateRanges)) (\<lambda>d.
              Inr \<lparr>stageAverages = a, specialStageAverages = b,
                   jobCardReceivedMetrics = c, bayWorkMetrics = d\<rparr>))))
      in case answer of Inl e \<Rightarrow> Response500 e | Inr result \<Rightarrow> Response200 result)"

subsection \<open>\<^verbatim>\<open>/dashboard/live-status\<close>\<close>

text \<open>
  An entry of \<^verbatim>\<open>stageWiseDistribution\<close>. \<open>startedAt\<close> is the timestamp itself: the
  rendering of dates by \<^verbatim>\<open>formatToIST\<close> is not modelled. The earlier variant of the route
  builds the same entries without the last two fields.
\<close>

record liveEntry = numbered +
  startedAt :: int
  performedByName :: string
  liveDuration :: string
  durationMinutes :: int

text \<open>A missing stage name used as a property key is the key \<^verbatim>\<open>undefined\<close>.\<close>

definition keyOf :: "string option \<Rightarrow> string" where
  "keyOf name = (case name of None \<Rightarrow> ''undefined'' | Some n \<Rightarrow> n)"

text \<open>
  \<^verbatim>\<open>stageGroups\<close>, as the list of its entries in insertion order. Each group writes to
  its own key of \<^verbatim>\<open>stageMap\<close> only, so the order in which the groups are visited does
  not show in the result.
\<close>

fun pushEntry :: "string \<Rightarrow> stageEvent \<Rightarrow> (string \<times> stageEvent list) list
    \<Rightarrow> (string \<times> stageEvent list) list" where
  "pushEntry key s [] = [(key, [s])]"
| "pushEntry key s ((k, ss) # groups) =
     (if k = key then (k, ss @ [s]) # groups else (k, ss) # pushEntry key s groups)"

definition stageGroupsOf :: "stageEvent list \<Rightarrow> (string \<times> stageEvent list) list" where
  "stageGroupsOf stages' = foldl (\<lambda>groups stage. pushEntry (keyOf (stageName stage)) stage groups) [] stages'"

text \<open>\<^verbatim>\<open>Math.round\<close>.\<close>

definition mathRound :: "rat \<Rightarrow> int" where
  "mathRound x = \<lfloor>x + 1 / 2\<rfloor>"

definition userNameOf :: "stageEvent \<Rightarrow> string" where
  "userNameOf s = (case performedBy s of None \<Rightarrow> ''Unknown'' | Some n \<Rightarrow> if n = [] then ''Unknown'' else n)"

text \<open>The entry pushed for an open start, and the entries stored under a key so far.\<close>

definition liveEntryFor :: "int \<Rightarrow> string \<Rightarrow> stageEvent \<Rightarrow> liveEntry" where
  "liveEntryFor now vn s =
     (let durationMs = now - timestamp s
      in \<lparr>vehicleNumber = vn,
          startedAt = timestamp s,
          performedByName = userNameOf s,
          liveDuration = formatDuration (of_int durationMs),
          durationMinutes = mathRound (of_int durationMs / 60000)\<rparr>)"

definition entriesOf :: "(string \<rightharpoonup> liveEntry list) \<Rightarrow> string \<Rightarrow> liveEntry list" where
  "entriesOf stageMap name = (case stageMap name of None \<Rightarrow> [] | Some es \<Rightarrow> es)"

text \<open>
  The loop over \<^verbatim>\<open>starts\<close>: the first start without a later end is pushed and the loop
  is left.
\<close>

fun scanStarts ::
  "int \<Rightarrow> string \<Rightarrow> string \<Rightarrow> stageEvent list \<Rightarrow> stageEvent list
     \<Rightarrow> (string \<rightharpoonup> liveEntry list) \<Rightarrow> (string \<rightharpoonup> liveEntry list)" where
  "scanStarts now vn name ends [] stageMap = stageMap"
| "scanStarts now vn name ends (s # starts) stageMap =
     (let isEnded = list_ex (\<lambda>e. timestamp e > timestamp s) ends
      in if \<not> isEnded
         then stageMap(name \<mapsto> entriesOf stageMap name @ [liveEntryFor now vn s])
         else scanStarts now vn name ends starts stageMap)"

text \<open>The body of the loop over the groups of one vehicle.\<close>

definition liveGroup ::
  "int \<Rightarrow> string \<Rightarrow> (string \<rightharpoonup> liveEntry list) \<Rightarrow> string \<times> stageEvent list
     \<Rightarrow> (string \<rightharpoonup> liveEntry list)" where
  "liveGroup now vn stageMap entry =
     (case entry of (name, entries) \<Rightarrow>
        (let starts = sort_key timestamp (filter (\<lambda>s. eventType s = Some Start) entries);
             ends = sort_key timestamp (filter (\<lambda>s. eventType s = Some End) entries)
         in scanStarts now vn name ends starts stageMap))"

definition liveVehicle ::
  "int \<Rightarrow> (string \<rightharpoonup> liveEntry list) \<Rightarrow> vehicle \<Rightarrow> (string \<rightharpoonup> liveEntry list)" where
  "liveVehicle now stageMap v =
     foldl (liveGroup now (vehicleNumber v)) stageMap (stageGroupsOf (stages v))"

text \<open>
  \<^verbatim>\<open>stageWiseDistribution\<close> of the answer, from the stored vehicles: the active vehicles are
  those without an exit time.
\<close>

definition liveStageStatus :: "int \<Rightarrow> vehicle list \<Rightarrow> (string \<rightharpoonup> liveEntry list)" where
  "liveStageStatus now db =
     (let allTimeActiveVehicles = filter (\<lambda>v. exitTime v = None) db
      in foldl (liveVehicle now) Map.empty allTimeActiveVehicles)"

text \<open>
  The starts of a vehicle under one stage key that no end of the same key follows, in the
  order of the event array: the open starts that the claim about the live view speaks of.
\<close>

definition openStarts :: "vehicle \<Rightarrow> string \<Rightarrow> stageEvent list" where
  "openStarts v name =
     filter (\<lambda>s. eventType s = Some Start \<and> keyOf (stageName s) = name
                  \<and> \<not> list_ex (\<lambda>e. keyOf (stageName e) = name \<and> eventType e = Some End
                                      \<and> timestamp e > timestamp s) (stages v))
       (stages v)"

subsection \<open>Notions used in the statements and proofs\<close>

text \<open>An event that has its stage name.\<close>

definition named :: "stageEvent \<Rightarrow> bool" where
  "named s = (stageName s \<noteq> None)"

text \<open>The scan pushes the first open start, if there is one, and nothing else.\<close>

definition firstOpen :: "int \<Rightarrow> string \<Rightarrow> stageEvent list \<Rightarrow> stageEvent list \<Rightarrow> liveEntry list" where
  "firstOpen now vn ends starts =
     (case filter (\<lambda>s. \<not> list_ex (\<lambda>e. timestamp e > timestamp s) ends) starts of
        [] \<Rightarrow> [] | s # _ \<Rightarrow> [liveEntryFor now vn s])"

definition groupEntries :: "int \<Rightarrow> string \<Rightarrow> stageEvent list \<Rightarrow> liveEntry list" where
  "groupEntries now vn entries =
     firstOpen now vn
       (sort_key timestamp (filter (\<lambda>s. eventType s = Some End) entries))
       (sort_key timestamp (filter (\<lambda>s. eventType s = Some Start) entries))"

text \<open>What one vehicle adds under one key.\<close>

definition vehicleEntries :: "int \<Rightarrow> vehicle \<Rightarrow> string \<Rightarrow> liveEntry list" where
  "vehicleEntries now v name =
     (case sort_key timestamp (openStarts v name) of
        [] \<Rightarrow> [] | s # _ \<Rightarrow> [liveEntryFor now (vehicleNumber v) s])"

text \<open>
  The pure reading of the callback \<open>startedAfter\<close>, for events that have their names.
\<close>

definition isStartAfter :: "string \<Rightarrow> int \<Rightarrow> stageEvent \<Rightarrow> bool" where
  "isStartAfter p t s =
     (case stageName s of
        None \<Rightarrow> False
      | Some n \<Rightarrow> prefix p n \<and> eventType s = Some Start \<and> timestamp s > t)"

definition isStartBefore :: "string \<Rightarrow> int \<Rightarrow> stageEvent \<Rightarrow> bool" where
  "isStartBefore p t s =
     (case stageName s of
        None \<Rightarrow> False
      | Some n \<Rightarrow> prefix p n \<and> eventType s = Some Start \<and> timestamp s < t)"

definition isStartOfPrefix :: "string \<Rightarrow> stageEvent \<Rightarrow> bool" where
  "isStartOfPrefix p s =
     (case stageName s of None \<Rightarrow> False | Some n \<Rightarrow> prefix p n \<and> eventType s = Some Start)"

text \<open>
  The events of one stage, of one event type, that a vehicle has in a window, in the order of
  the event array.
\<close>

definition eventsOf :: "string \<Rightarrow> eventType \<Rightarrow> int \<Rightarrow> int \<Rightarrow> vehicle \<Rightarrow> stageEvent list" where
  "eventsOf name t start end' v =
     filter (\<lambda>s. stageName s = Some name \<and> eventType s = Some t \<and> inWindow start end' s)
       (stages v)"

text \<open>
  A start that some end follows, and the detail record of such a start when it is closed by
  the least timestamp among the ends that follow it.
\<close>

definition hasLaterEnd :: "stageEvent list \<Rightarrow> stageEvent \<Rightarrow> bool" where
  "hasLaterEnd ends s = list_ex (\<lambda>e. timestamp e > timestamp s) ends"

definition leastLaterEnd :: "stageEvent list \<Rightarrow> stageEvent \<Rightarrow> int" where
  "leastLaterEnd ends s = Min (set (filter (\<lambda>t. t > timestamp s) (map timestamp ends)))"

definition stageDetail :: "string \<Rightarrow> stageEvent list \<Rightarrow> stageEvent \<Rightarrow> detail" where
  "stageDetail vn ends s =
     \<lparr>vehicleNumber = vn,
      startTime = timestamp s,
      endTime = leastLaterEnd ends s,
      duration = formatMilliseconds (of_int (leastLaterEnd ends s - timestamp s))\<rparr>"

text \<open>
  The bay-allocation starts that follow a start among the events of a window, and the detail
  record of an approval closed by the second of them.
\<close>

definition laterAllocations :: "stageEvent list \<Rightarrow> stageEvent \<Rightarrow> stageEvent list" where
  "laterAllocations inRange s =
     filter (isStartAfter ''Job Card Received + Bay Allocation'' (timestamp s)) inRange"

definition secondAllocation :: "stageEvent list \<Rightarrow> stageEvent \<Rightarrow> int" where
  "secondAllocation inRange s = sort (map timestamp (laterAllocations inRange s)) ! 1"

definition approvalDetail :: "string \<Rightarrow> stageEvent list \<Rightarrow> stageEvent \<Rightarrow> detail" where
  "approvalDetail vn inRange s =
     \<lparr>vehicleNumber = vn,
      startTime = timestamp s,
      endTime = secondAllocation inRange s,
      duration = formatDuration (of_int (secondAllocation inRange s - timestamp s))\<rparr>"

text \<open>
  A bucket whose count and total agree with its details: the count is the number of details
  and the total is the sum of \<open>endTime - startTime\<close> over them.
\<close>

definition spanOf :: "detail \<Rightarrow> int" where
  "spanOf d = endTime d - startTime d"

definition tallied :: "'a stageData_scheme \<Rightarrow> bool" where
  "tallied b =
     (count b = length (details b) \<and> totalDurationMs b = sum_list (map spanOf (details b)))"

text \<open>
  A bucket of the special stages that has not been given its formatted total and average
  yet.
\<close>

definition unformatted :: "specialData \<Rightarrow> bool" where
  "unformatted b =
     (totalDurationFormatted b = ''00:00:00'' \<and> averageFormatted b = ''00:00:00'')"

text \<open>
  A bay-work bucket whose count and total agree with its details and whose active and paused
  time add up to the total; and a result all of whose buckets are so.
\<close>

definition balanced :: "bayData \<Rightarrow> bool" where
  "balanced b =
     (tallied b \<and> totalActiveDurationMs b + totalPausedDurationMs b = totalDurationMs b)"

definition allBalanced :: "bayData bayResult \<Rightarrow> bool" where
  "allBalanced r =
     (balanced (overall r) \<and> (\<forall>w. case byWorkType r w of None \<Rightarrow> True | Some d \<Rightarrow> balanced d))"

text \<open>An event that can be put into a work group.\<close>

definition hasBay :: "stageEvent \<Rightarrow> bool" where
  "hasBay s =
     (case (workType s, bayNumber s) of
        (Some w, Some b) \<Rightarrow> w \<noteq> [] \<and> b \<noteq> []
      | _ \<Rightarrow> False)"

text \<open>
  A detail whose text is the formatted length of its interval, and a job-card bucket before
  the final formatting: every detail is such, and count, total and average are still the
  initial ones.
\<close>

definition measured :: "detail \<Rightarrow> bool" where
  "measured d = (0 \<le> spanOf d \<and> duration d = formatDuration (of_int (spanOf d)))"

definition collecting :: "stageReport \<Rightarrow> bool" where
  "collecting b =
     (list_all measured (details b) \<and> count b = 0
      \<and> totalDuration b = ''00:00:00'' \<and> average b = ''00:00:00'')"

definition allCollecting :: "jobCardResult \<Rightarrow> bool" where
  "allCollecting r =
     (collecting (jobCardReceivedBayAllocation r) \<and> collecting (jobCardReceivedByTechnician r)
      \<and> collecting (jobCardReceivedByFI r))"

text \<open>The sum of the lengths of the intervals of the details, each truncated to whole seconds.\<close>

definition truncatedTotal :: "detail list \<Rightarrow> int" where
  "truncatedTotal items = sum_list (map (\<lambda>d. spanOf d div 1000 * 1000) items)"

text \<open>The three buckets of a job-card result.\<close>

definition jobCardBuckets :: "jobCardResult \<Rightarrow> stageReport list" where
  "jobCardBuckets r =
     [jobCardReceivedBayAllocation r, jobCardReceivedByTechnician r, jobCardReceivedByFI r]"

text \<open>
  An event that has both its stage name and its event type, and a vehicle without the events
  that lack one of them; a vehicle without the events that cannot be put into a work group.
\<close>

definition wellFormed :: "stageEvent \<Rightarrow> bool" where
  "wellFormed s = (stageName s \<noteq> None \<and> eventType s \<noteq> None)"

definition dropMalformed :: "vehicle \<Rightarrow> vehicle" where
  "dropMalformed v = v\<lparr>stages := filter wellFormed (stages v)\<rparr>"

definition dropUngrouped :: "vehicle \<Rightarrow> vehicle" where
  "dropUngrouped v = v\<lparr>stages := filter hasBay (stages v)\<rparr>"

text \<open>A vehicle with an event in the window that has no stage name.\<close>

definition namelessInWindow :: "int \<Rightarrow> int \<Rightarrow> vehicle \<Rightarrow> bool" where
  "namelessInWindow start end' v =
     list_ex (\<lambda>s. inWindow start end' s \<and> stageName s = None) (stages v)"

subsection \<open>Example events and vehicles\<close>

text \<open>The concrete inputs on which the theorems below are evaluated.\<close>

definition event :: "string \<Rightarrow> eventType \<Rightarrow> int \<Rightarrow> stageEvent" where
  "event name t ts =
     \<lparr>stageName = Some name, eventType = Some t, timestamp = ts,
      performedBy = None, workType = None, bayNumber = None\<rparr>"

definition car :: "string \<Rightarrow> stageEvent list \<Rightarrow> vehicle" where
  "car vn ss = \<lparr>vehicleNumber = vn, entryTime = 0, exitTime = None, stages = ss\<rparr>"

definition bayEvent :: "eventType \<Rightarrow> int \<Rightarrow> stageEvent" where
  "bayEvent t ts =
     \<lparr>stageName = Some ''Bay Work: Denting'', eventType = Some t, timestamp = ts,
      performedBy = None, workType = Some ''Denting'', bayNumber = Some ''B1''\<rparr>"

definition dentingStages :: "stageEvent list" where
  "dentingStages =
     [bayEvent Start 32400000, bayEvent Pause 33600000,
      bayEvent Resume 34200000, bayEvent End 36000000]"

definition liveCar :: vehicle where
  "liveCar =
     car ''V1'' [event ''Washing'' Start 3000, event ''Washing'' Start 1000,
                event ''Washing'' End 2000, event ''Washing'' Start 5000]"

definition liveDb :: "vehicle list" where
  "liveDb =
     [liveCar,
      car ''V2'' [event ''Washing'' Start 100],
      (car ''V3'' [event ''Washing'' Start 200])\<lparr>exitTime := Some 9000\<rparr>]"

definition washCar :: vehicle where
  "washCar =
     car ''V1'' [event ''Washing'' Start 1000, event ''Washing'' Start 2000,
                event ''Washing'' End 3500]"

text \<open>
  The scenario of the specification: two approvals and three later bay allocations. The
  events are not in chronological order in the array.
\<close>

definition approvalCar :: vehicle where
  "approvalCar =
     car ''V2''
       [event ''Additional Work Job Approval'' Start 2000,
        event ''Job Card Received + Bay Allocation'' Start 5000,
        event ''Additional Work Job Approval'' Start 1000,
        event ''Job Card Received + Bay Allocation'' Start 4000,
        event ''Job Card Received + Bay Allocation'' Start 3000]"

text \<open>
  A bay allocation followed by two starts of bay work that are not in chronological order in
  the array, and the same events in reverse array order.
\<close>

definition jobCarA :: vehicle where
  "jobCarA =
     car ''V3''
       [event ''Job Card Received + Bay Allocation'' Start 1000,
        event ''Bay Work: Denting'' Start 5500,
        event ''Bay Work: Denting'' Start 3500]"

definition jobCarB :: vehicle where
  "jobCarB =
     car ''V3''
       [event ''Bay Work: Denting'' Start 3500,
        event ''Bay Work: Denting'' Start 5500,
        event ''Job Card Received + Bay Allocation'' Start 1000]"

text \<open>Intervals of one and a half seconds, and the bay work of the denting scenario.\<close>

definition halfSecondCar :: vehicle where
  "halfSecondCar =
     car ''V4''
       [event ''Washing'' Start 1000, event ''Washing'' End 2500,
        event ''Washing'' Start 3000, event ''Washing'' End 4500,
        event ''Job Card Received + Bay Allocation'' Start 1000,
        event ''Bay Work: Denting'' Start 2500,
        event ''Job Card Received + Bay Allocation'' Start 3000,
        event ''Bay Work: Denting'' Start 4500,
        event ''Ready for Washing'' Start 500]"

definition dentingCar :: vehicle where
  "dentingCar = car ''V5'' dentingStages"

text \<open>
  A clock that advances by one millisecond with every reading, from 3 November 2026, 10:00
  in a zone 5:30 hours ahead of UTC; and a clock that shows the same readings four calls
  later.
\<close>

definition tickingClock :: "nat \<Rightarrow> int" where
  "tickingClock n = 1793680200000 + int n"

definition replayedClock :: "nat \<Rightarrow> int" where
  "replayedClock n = tickingClock (n - 4)"

text \<open>
  A vehicle with one event that has no stage name, and a store whose queries answer with
  that vehicle next to a sound one.
\<close>

definition namelessCar :: vehicle where
  "namelessCar =
     car ''V6'' [(event ''Washing'' Start 1793650000000)\<lparr>stageName := None\<rparr>]"

definition soundCar :: vehicle where
  "soundCar =
     car ''V7'' [event ''Ready for Washing'' Start 1793650000000,
                event ''Washing'' Start 1793660000000]"

definition corruptStore :: store where
  "corruptStore =
     \<lparr>findTracked = (\<lambda>start end'. [soundCar, namelessCar]),
      findSpecial = (\<lambda>start end'. [soundCar, namelessCar]),
      findInWindow = (\<lambda>start end'. [soundCar, namelessCar]),
      findBayWork = (\<lambda>start end'. [soundCar, namelessCar])\<rparr>"

section \<open>Properties\<close>

subsection \<open>Digits and fields\<close>

lemma digitChar_isDigit: "d < 10 \<Longrightarrow> isDigit (digitChar d)"
  by (simp add: digitChar_def isDigit_def nth_Cons')

lemma digitVal_digitChar:
  assumes "d < 10"
  shows "digitVal (digitChar d) = d"
proof -
  from assms have "d \<in> {0,1,2,3,4,5,6,7,8,9}" by auto
  then show ?thesis
    by (auto simp: digitVal_def digitChar_def)
qed

lemma natToString_digits: "list_all isDigit (natToString n)"
proof (induction n rule: natToString.induct)
  case (1 n)
  show ?case
  proof (cases "n < 10")
    case True
    then show ?thesis by (simp add: natToString.simps [of n] digitChar_isDigit)
  next
    case False
    with 1 show ?thesis by (simp add: natToString.simps [of n] digitChar_isDigit)
  qed
qed

lemma natToString_nonempty: "natToString n \<noteq> []"
  by (subst natToString.simps) simp

lemma decimalValue_snoc: "decimalValue (s @ [c]) = 10 * decimalValue s + digitVal c"
  by (simp add: decimalValue_def)

lemma decimalValue_natToString: "decimalValue (natToString n) = n"
proof (induction n rule: natToString.induct)
  case (1 n)
  show ?case
  proof (cases "n < 10")
    case True
    then show ?thesis
      by (simp add: natToString.simps [of n] decimalValue_def digitVal_digitChar)
  next
    case False
    with 1 have "decimalValue (natToString (n div 10)) = n div 10" by simp
    with False show ?thesis
      by (simp add: natToString.simps [of n] decimalValue_snoc digitVal_digitChar)
  qed
qed

lemma length_natToString_small: "n < 10 \<Longrightarrow> length (natToString n) = 1"
  by (simp add: natToString.simps [of n])

lemma length_natToString_100: "n < 100 \<Longrightarrow> length (natToString n) \<le> 2"
  by (simp add: natToString.simps [of n] length_natToString_small)

lemma decimalValue_zeros: "decimalValue (replicate k (CHR ''0'') @ s) = decimalValue s"
proof -
  have "foldl (\<lambda>acc c. 10 * acc + digitVal c) 0 (replicate k (CHR ''0'')) = 0"
    by (induction k) (simp_all add: digitVal_def)
  then show ?thesis by (simp add: decimalValue_def)
qed

lemma isDigit_not_colon: "list_all isDigit s \<Longrightarrow> CHR '':'' \<notin> set s"
proof
  assume "list_all isDigit s" and "CHR '':'' \<in> set s"
  then have "isDigit (CHR '':'')" by (simp add: list_all_iff)
  then show False by (simp add: isDigit_def)
qed

lemma splitOn_plain: "c \<notin> set s \<Longrightarrow> splitOn c s = [s]"
  by (induction s) auto

lemma splitOn_field: "c \<notin> set a \<Longrightarrow> splitOn c (a @ c # b) = a # splitOn c b"
  by (induction a) auto

lemma field2_digits:
  assumes n: "0 \<le> n"
  shows "list_all isDigit (field2 n)"
proof -
  have "isDigit (CHR ''0'')" by (simp add: isDigit_def)
  then have "list_all isDigit (replicate k (CHR ''0''))" for k
    by (simp add: list_all_iff)
  then show ?thesis
    using n natToString_digits [of "nat n"]
    by (simp add: field2_def padStart_def toString_def)
qed

lemma field2_length: "2 \<le> length (field2 n)"
  by (simp add: field2_def padStart_def)

lemma field2_nonempty: "field2 n \<noteq> []"
  using field2_length [of n] by auto

lemma field2_value: "0 \<le> n \<Longrightarrow> int (decimalValue (field2 n)) = n"
  by (simp add: field2_def padStart_def toString_def decimalValue_zeros decimalValue_natToString)

lemma field2_length_small:
  assumes a: "0 \<le> n" "n < 100"
  shows "length (field2 n) = 2"
proof -
  from a have "length (natToString (nat n)) \<le> 2"
    by (intro length_natToString_100) simp
  with a show ?thesis by (simp add: field2_def padStart_def toString_def)
qed

lemma formatDuration_fields:
  "formatDuration ms =
     field2 (\<lfloor>ms / 1000\<rfloor> div 3600) @ '':'' @
     field2 ((\<lfloor>ms / 1000\<rfloor> smod 3600) div 60) @ '':'' @
     field2 (\<lfloor>ms / 1000\<rfloor> smod 60)"
  by (simp add: formatDuration_def Let_def field2_def)

lemma floor_divide_pos:
  fixes x :: rat
  assumes "0 < b"
  shows "\<lfloor>x / of_int b\<rfloor> = \<lfloor>x\<rfloor> div b"
proof (rule floor_unique)
  have b: "(0::rat) < of_int b" using assms by simp
  have "0 \<le> \<lfloor>x\<rfloor> mod b" using assms by simp
  then have "\<lfloor>x\<rfloor> div b * b \<le> \<lfloor>x\<rfloor>"
    using div_mult_mod_eq [of "\<lfloor>x\<rfloor>" b] by linarith
  then have "of_int (\<lfloor>x\<rfloor> div b * b) \<le> (of_int \<lfloor>x\<rfloor> :: rat)"
    by (simp only: of_int_le_iff)
  also have "\<dots> \<le> x" by simp
  finally have "of_int (\<lfloor>x\<rfloor> div b) * of_int b \<le> x" by simp
  then show "of_int (\<lfloor>x\<rfloor> div b) \<le> x / of_int b"
    using b by (simp add: pos_le_divide_eq)
  have "\<lfloor>x\<rfloor> mod b < b" using assms by simp
  then have "\<lfloor>x\<rfloor> + 1 \<le> \<lfloor>x\<rfloor> div b * b + b"
    using div_mult_mod_eq [of "\<lfloor>x\<rfloor>" b] by linarith
  then have "(of_int (\<lfloor>x\<rfloor> + 1) :: rat) \<le> of_int (\<lfloor>x\<rfloor> div b * b + b)"
    by (simp only: of_int_le_iff)
  moreover have "x < of_int (\<lfloor>x\<rfloor> + 1)" by linarith
  ultimately have "x < (of_int (\<lfloor>x\<rfloor> div b) + 1) * of_int b"
    by (simp add: algebra_simps)
  then show "x / of_int b < of_int (\<lfloor>x\<rfloor> div b) + 1"
    using b by (simp add: pos_divide_less_eq)
qed

text \<open>Hours, minutes and seconds of a non-negative number of whole seconds.\<close>

lemma hms_nonneg:
  fixes T :: int
  assumes "0 \<le> T"
  shows "T smod 3600 = T mod 3600" and "T smod 60 = T mod 60"
    and "(T mod 3600) div 60 = T div 60 mod 60"
    and "T div 3600 * 3600 + (T mod 3600) div 60 * 60 + T mod 60 = T"
proof -
  show "T smod 3600 = T mod 3600" "T smod 60 = T mod 60"
    using assms by (simp_all add: signed_modulo_int_eq_modulo_int smod_int_alt_def sgn_if)
  have m3600: "T mod 3600 = 60 * (T div 60 mod 60) + T mod 60"
    using zmod_zmult2_eq [of 60 T 60] by simp
  show Mq: "(T mod 3600) div 60 = T div 60 mod 60"
    unfolding m3600 by simp
  have Hq: "T div 3600 = T div 60 div 60"
    using zdiv_zmult2_eq [of 60 T 60] by simp
  have e1: "T div 60 div 60 * 60 + T div 60 mod 60 = T div 60"
    by (rule div_mult_mod_eq)
  have e2: "T div 60 * 60 + T mod 60 = T"
    by (rule div_mult_mod_eq)
  define H M S where "H = T div 60 div 60" and "M = T div 60 mod 60" and "S = T mod 60"
  have "H * 3600 + M * 60 + S = (H * 60 + M) * 60 + S"
    by (simp add: algebra_simps)
  also have "\<dots> = T"
    unfolding H_def M_def S_def e1 e2 ..
  finally show "T div 3600 * 3600 + (T mod 3600) div 60 * 60 + T mod 60 = T"
    unfolding H_def M_def S_def Hq Mq .
qed

text \<open>The formatter on a non-negative duration, field by field.\<close>

lemma formatDuration_nonneg:
  assumes "0 \<le> ms"
  shows "formatDuration ms =
           field2 (\<lfloor>ms / 1000\<rfloor> div 3600) @ '':'' @
           field2 (\<lfloor>ms / 1000\<rfloor> mod 3600 div 60) @ '':'' @
           field2 (\<lfloor>ms / 1000\<rfloor> mod 60)"
    and "splitOn (CHR '':'') (formatDuration ms) =
           [field2 (\<lfloor>ms / 1000\<rfloor> div 3600),
            field2 (\<lfloor>ms / 1000\<rfloor> mod 3600 div 60),
            field2 (\<lfloor>ms / 1000\<rfloor> mod 60)]"
proof -
  define T where "T = \<lfloor>ms / 1000\<rfloor>"
  have T0: "0 \<le> T" using assms by (simp add: T_def)
  note sm = hms_nonneg(1,2) [OF T0]
  show fmt: "formatDuration ms =
               field2 (\<lfloor>ms / 1000\<rfloor> div 3600) @ '':'' @
               field2 (\<lfloor>ms / 1000\<rfloor> mod 3600 div 60) @ '':'' @
               field2 (\<lfloor>ms / 1000\<rfloor> mod 60)"
    unfolding formatDuration_fields T_def [symmetric] sm ..
  have "0 \<le> T div 3600" "0 \<le> T mod 3600 div 60" "0 \<le> T mod 60"
    using T0 by (simp_all add: pos_imp_zdiv_nonneg_iff)
  then have nc: "CHR '':'' \<notin> set (field2 (T div 3600))"
      "CHR '':'' \<notin> set (field2 (T mod 3600 div 60))"
      "CHR '':'' \<notin> set (field2 (T mod 60))"
    by (simp_all add: field2_digits isDigit_not_colon)
  show "splitOn (CHR '':'') (formatDuration ms) =
          [field2 (\<lfloor>ms / 1000\<rfloor> div 3600),
           field2 (\<lfloor>ms / 1000\<rfloor> mod 3600 div 60),
           field2 (\<lfloor>ms / 1000\<rfloor> mod 60)]"
    unfolding fmt T_def [symmetric] using nc by (simp add: splitOn_field splitOn_plain)
qed

lemma jsNumber_field2: "0 \<le> n \<Longrightarrow> jsNumber (field2 n) = Some n"
  by (simp add: jsNumber_def field2_nonempty field2_digits field2_value)

text \<open>Reading a formatted duration back gives the duration truncated to whole seconds.\<close>

lemma detailMs_formatDuration:
  assumes "0 \<le> ms"
  shows "detailMs (formatDuration ms) = Some (\<lfloor>ms / 1000\<rfloor> * 1000)"
proof -
  define T where "T = \<lfloor>ms / 1000\<rfloor>"
  have T0: "0 \<le> T" using assms by (simp add: T_def)
  have nn: "0 \<le> T div 3600" "0 \<le> T mod 3600 div 60" "0 \<le> T mod 60"
    using T0 by (simp_all add: pos_imp_zdiv_nonneg_iff)
  have "detailMs (formatDuration ms)
          = Some ((T div 3600 * 3600 + T mod 3600 div 60 * 60 + T mod 60) * 1000)"
    unfolding detailMs_def formatDuration_nonneg(2) [OF assms] T_def [symmetric]
    by (simp add: jsNumber_field2 nn)
  then have "detailMs (formatDuration ms) = Some (T * 1000)"
    by (simp only: hms_nonneg(4) [OF T0])
  then show ?thesis
    unfolding T_def .
qed

lemma floor_of_int_div_1000: "\<lfloor>(of_int x :: rat) / 1000\<rfloor> = x div 1000"
  using floor_divide_of_int_eq [of x 1000, where ?'a = rat] by simp

lemma formatMilliseconds_formatDuration: "formatMilliseconds ms = formatDuration ms"
proof -
  have "ms / 60000 * 60 = ms / 1000" by simp
  then show ?thesis
    by (simp add: formatMilliseconds_def formatMinutes_def formatDuration_def)
qed

lemma formatDuration_zero: "formatDuration 0 = ''00:00:00''"
  by code_simp

subsection \<open>Callbacks that do not throw\<close>

lemma bindE_Inr [simp]: "bindE (Inr x) f = f x"
  by (simp add: bindE_def)

lemma bindE_Inl [simp]: "bindE (Inl e) f = Inl e"
  by (simp add: bindE_def)

lemma bindE_eq_Inr: "bindE m f = Inr y \<longleftrightarrow> (\<exists>x. m = Inr x \<and> f x = Inr y)"
  by (cases m) simp_all

lemma filterE_total:
  "\<forall>x \<in> set xs. p x = Inr (q x) \<Longrightarrow> filterE p xs = Inr (filter q xs)"
  by (induction xs) simp_all

lemma findE_total:
  "\<forall>x \<in> set xs. p x = Inr (q x) \<Longrightarrow> findE p xs = Inr (find q xs)"
  by (induction xs) simp_all

lemma only_TypeError: "(e :: error) = TypeError"
  by (cases e) simp

lemma filterE_throws:
  assumes "x \<in> set xs" and "p x = Inl e"
  shows "filterE p xs = Inl TypeError"
  using assms
proof (induction xs)
  case Nil
  then show ?case by simp
next
  case (Cons a xs)
  show ?case
  proof (cases "p a")
    case (Inl e')
    then show ?thesis by (simp add: only_TypeError [of e'])
  next
    case (Inr b)
    with Cons.prems have "x \<noteq> a" by auto
    with Cons.prems have "x \<in> set xs" by simp
    with Cons have "filterE p xs = Inl TypeError" by simp
    with Inr show ?thesis by simp
  qed
qed

lemma forEachE_total:
  "\<forall>x \<in> set xs. \<forall>s. f x s = Inr (g s x) \<Longrightarrow> forEachE f xs s = Inr (foldl g s xs)"
  by (induction xs arbitrary: s) simp_all

lemma forEachE_throws:
  assumes "x \<in> set xs" and "\<And>s. f x s = Inl TypeError"
  shows "forEachE f xs s = Inl TypeError"
  using assms(1)
proof (induction xs arbitrary: s)
  case Nil
  then show ?case by simp
next
  case (Cons a xs)
  show ?case
  proof (cases "f a s")
    case (Inl e')
    then show ?thesis by (simp add: only_TypeError [of e'])
  next
    case (Inr s')
    with assms(2) [of s] have "x \<noteq> a" by auto
    with Cons.prems have "x \<in> set xs" by simp
    then have "forEachE f xs s' = Inl TypeError" by (rule Cons.IH)
    with Inr show ?thesis by simp
  qed
qed

lemma startsWith_present: "startsWith (Some n) p = Inr (prefix p n)"
  by (simp add: startsWith_def)

lemma startsWith_missing: "startsWith None p = Inl TypeError"
  by (simp add: startsWith_def)

subsection \<open>The walk over Pause, Resume and End\<close>

lemma walk_telescopes:
  "walk es lastTime paused active state = (Some e, p, a)
     \<Longrightarrow> a + p = active + paused + (timestamp e - lastTime)"
proof (induction es arbitrary: lastTime paused active state)
  case Nil
  then show ?case by simp
next
  case (Cons x es)
  show ?case
  proof (cases "eventType x = Some Pause")
    case True
    with Cons.prems
    have "walk es (timestamp x)
            (if state = Active then paused else paused + (timestamp x - lastTime))
            (if state = Active then active + (timestamp x - lastTime) else active) Paused
          = (Some e, p, a)"
      by (simp add: Let_def)
    from Cons.IH [OF this] show ?thesis by (simp split: if_splits)
  next
    case notPause: False
    show ?thesis
    proof (cases "eventType x = Some Resume")
      case True
      with Cons.prems notPause
      have "walk es (timestamp x)
              (if state = Active then paused else paused + (timestamp x - lastTime))
              (if state = Active then active + (timestamp x - lastTime) else active) Active
            = (Some e, p, a)"
        by (simp add: Let_def)
      from Cons.IH [OF this] show ?thesis by (simp split: if_splits)
    next
      case notResume: False
      show ?thesis
      proof (cases "eventType x = Some End")
        case True
        with Cons.prems notPause notResume show ?thesis
          by (auto simp: Let_def split: if_splits)
      next
        case False
        with Cons.prems notPause notResume
        have "walk es (timestamp x)
                (if state = Active then paused else paused + (timestamp x - lastTime))
                (if state = Active then active + (timestamp x - lastTime) else active) state
              = (Some e, p, a)"
          by (simp add: Let_def)
        from Cons.IH [OF this] show ?thesis by (simp split: if_splits)
      qed
    qed
  qed
qed

lemma walk_finds_End:
  "walk es lastTime paused active state = (Some e, p, a)
     \<Longrightarrow> e \<in> set es \<and> eventType e = Some End"
  by (induction es arbitrary: lastTime paused active state)
     (auto simp: Let_def split: if_splits)

lemma bayOccurrence_closed:
  assumes "bayOccurrence stages' startEvent = (Some endEvent, paused, active)"
  shows "active + paused = timestamp endEvent - timestamp startEvent"
    and "endEvent \<in> set stages'" and "eventType endEvent = Some End"
    and "timestamp endEvent > timestamp startEvent"
proof -
  let ?sub = "sort_key timestamp
                (filter (\<lambda>s. timestamp s > timestamp startEvent
                             \<and> eventType s \<in> set [Some Pause, Some Resume, Some End]) stages')"
  from assms have w: "walk ?sub (timestamp startEvent) 0 0 Active = (Some endEvent, paused, active)"
    by (simp add: bayOccurrence_def)
  from walk_telescopes [OF w]
  show "active + paused = timestamp endEvent - timestamp startEvent" by simp
  from walk_finds_End [OF w]
  have "endEvent \<in> set ?sub" and isEnd: "eventType endEvent = Some End" by simp_all
  then show "endEvent \<in> set stages'" and "timestamp endEvent > timestamp startEvent"
    by simp_all
  from isEnd show "eventType endEvent = Some End" .
qed

subsection \<open>The live view\<close>

lemma find_as_filter: "find P xs = (case filter P xs of [] \<Rightarrow> None | x # _ \<Rightarrow> Some x)"
  by (induction xs) simp_all

lemma entriesOf_upd:
  "entriesOf (m(k \<mapsto> es)) name = (if name = k then es else entriesOf m name)"
  by (simp add: entriesOf_def)

lemma firstOpen_Nil: "firstOpen now vn ends [] = []"
  by (simp add: firstOpen_def)

lemma firstOpen_Cons:
  "firstOpen now vn ends (s # starts) =
     (if list_ex (\<lambda>e. timestamp e > timestamp s) ends then firstOpen now vn ends starts
      else [liveEntryFor now vn s])"
  by (simp add: firstOpen_def)

lemma entriesOf_scanStarts:
  "entriesOf (scanStarts now vn k ends starts m) name =
     entriesOf m name @ (if name = k then firstOpen now vn ends starts else [])"
  by (induction starts) (auto simp: firstOpen_Nil firstOpen_Cons Let_def entriesOf_def)

lemma entriesOf_liveGroup:
  "entriesOf (liveGroup now vn m (k, entries)) name =
     entriesOf m name @ (if name = k then groupEntries now vn entries else [])"
  by (simp add: liveGroup_def groupEntries_def entriesOf_scanStarts)

lemma entriesOf_groups:
  "distinct (map fst groups) \<Longrightarrow>
   entriesOf (foldl (liveGroup now vn) m groups) name =
     entriesOf m name @
       (case map_of groups name of None \<Rightarrow> [] | Some entries \<Rightarrow> groupEntries now vn entries)"
proof (induction groups arbitrary: m)
  case Nil
  then show ?case by simp
next
  case (Cons g groups)
  obtain k entries where g: "g = (k, entries)" by (cases g)
  from Cons.prems g have d: "distinct (map fst groups)" and nk: "k \<notin> fst ` set groups"
    by simp_all
  from nk have none: "map_of groups k = None"
    by (simp add: map_of_eq_None_iff)
  show ?case
    using Cons.IH [OF d, of "liveGroup now vn m (k, entries)"] none
    by (simp add: g entriesOf_liveGroup)
qed

text \<open>The groups: one for each key, holding the events of that key in array order.\<close>

lemma pushEntry_keys:
  "map fst (pushEntry k s groups) =
     (if k \<in> set (map fst groups) then map fst groups else map fst groups @ [k])"
proof (induction groups)
  case Nil
  show ?case by simp
next
  case (Cons g groups)
  obtain k' ss where g: "g = (k', ss)" by (cases g)
  show ?case
  proof (cases "k' = k")
    case True
    then show ?thesis by (simp add: g)
  next
    case False
    with Cons show ?thesis by (simp add: g)
  qed
qed

lemma map_of_pushEntry:
  "map_of (pushEntry k s groups) name =
     (if name = k then Some ((case map_of groups k of None \<Rightarrow> [] | Some ss \<Rightarrow> ss) @ [s])
      else map_of groups name)"
proof (induction groups)
  case Nil
  show ?case by simp
next
  case (Cons g groups)
  obtain k' ss where g: "g = (k', ss)" by (cases g)
  show ?case
  proof (cases "k' = k")
    case True
    then show ?thesis by (simp add: g)
  next
    case False
    with Cons show ?thesis by (auto simp: g)
  qed
qed

lemma stageGroupsOf_snoc:
  "stageGroupsOf (xs @ [x]) = pushEntry (keyOf (stageName x)) x (stageGroupsOf xs)"
  by (simp add: stageGroupsOf_def)

lemma stageGroupsOf_distinct: "distinct (map fst (stageGroupsOf xs))"
proof (induction xs rule: rev_induct)
  case Nil
  show ?case by (simp add: stageGroupsOf_def)
next
  case (snoc x xs)
  then show ?case by (simp add: stageGroupsOf_snoc pushEntry_keys)
qed

lemma map_of_stageGroupsOf:
  "map_of (stageGroupsOf xs) name =
     (if name \<in> (\<lambda>s. keyOf (stageName s)) ` set xs
      then Some (filter (\<lambda>s. keyOf (stageName s) = name) xs) else None)"
proof (induction xs rule: rev_induct)
  case Nil
  show ?case by (simp add: stageGroupsOf_def)
next
  case (snoc x xs)
  show ?case
  proof (cases "name = keyOf (stageName x)")
    case True
    have "(case map_of (stageGroupsOf xs) name of None \<Rightarrow> [] | Some ss \<Rightarrow> ss)
            = filter (\<lambda>s. keyOf (stageName s) = name) xs"
    proof (cases "name \<in> (\<lambda>s. keyOf (stageName s)) ` set xs")
      case True
      with snoc show ?thesis by simp
    next
      case False
      then have "filter (\<lambda>s. keyOf (stageName s) = name) xs = []"
        by (auto simp: filter_empty_conv)
      with False snoc show ?thesis by simp
    qed
    with True show ?thesis
      by (simp add: stageGroupsOf_snoc map_of_pushEntry)
  next
    case False
    with snoc show ?thesis
      by (auto simp: stageGroupsOf_snoc map_of_pushEntry)
  qed
qed

lemma groupEntries_openStarts:
  "groupEntries now (vehicleNumber v) (filter (\<lambda>s. keyOf (stageName s) = name) (stages v))
     = vehicleEntries now v name"
proof -
  let ?grp = "filter (\<lambda>s. keyOf (stageName s) = name) (stages v)"
  let ?ends = "sort_key timestamp (filter (\<lambda>s. eventType s = Some End) ?grp)"
  have "filter (\<lambda>s. \<not> list_ex (\<lambda>e. timestamp e > timestamp s) ?ends)
          (sort_key timestamp (filter (\<lambda>s. eventType s = Some Start) ?grp))
        = sort_key timestamp (openStarts v name)"
    unfolding openStarts_def filter_sort filter_filter
    by (rule arg_cong [where f = "sort_key timestamp"], rule filter_cong)
       (auto simp: list_ex_iff)
  then show ?thesis
    by (simp add: groupEntries_def firstOpen_def vehicleEntries_def)
qed

lemma openStarts_no_key:
  "name \<notin> (\<lambda>s. keyOf (stageName s)) ` set (stages v) \<Longrightarrow> openStarts v name = []"
  by (auto simp: openStarts_def filter_empty_conv)

lemma entriesOf_liveVehicle:
  "entriesOf (liveVehicle now m v) name = entriesOf m name @ vehicleEntries now v name"
proof (cases "name \<in> (\<lambda>s. keyOf (stageName s)) ` set (stages v)")
  case True
  then show ?thesis
    by (simp add: liveVehicle_def entriesOf_groups [OF stageGroupsOf_distinct]
        map_of_stageGroupsOf groupEntries_openStarts)
next
  case False
  then show ?thesis
    by (simp add: liveVehicle_def entriesOf_groups [OF stageGroupsOf_distinct]
        map_of_stageGroupsOf openStarts_no_key vehicleEntries_def)
qed

lemma entriesOf_vehicles:
  "entriesOf (foldl (liveVehicle now) m vs) name
     = entriesOf m name @ concat (map (\<lambda>v. vehicleEntries now v name) vs)"
  by (induction vs arbitrary: m) (simp_all add: entriesOf_liveVehicle)

lemma vehicleEntries_number:
  "e \<in> set (vehicleEntries now v name) \<Longrightarrow> vehicleNumber e = vehicleNumber v"
  by (auto simp: vehicleEntries_def liveEntryFor_def Let_def split: list.splits)

lemma filter_own_entries:
  "distinct (map vehicleNumber vs) \<Longrightarrow> v \<in> set vs \<Longrightarrow>
   filter (\<lambda>e. vehicleNumber e = vehicleNumber v)
     (concat (map (\<lambda>u. vehicleEntries now u name) vs)) = vehicleEntries now v name"
proof (induction vs)
  case Nil
  then show ?case by simp
next
  case (Cons u vs)
  have own: "filter (\<lambda>e. vehicleNumber e = vehicleNumber w) (vehicleEntries now w name)
               = vehicleEntries now w name" for w
    by (simp add: filter_id_conv vehicleEntries_number)
  have other: "filter (\<lambda>e. vehicleNumber e = vehicleNumber v) (vehicleEntries now w name) = []"
    if "vehicleNumber w \<noteq> vehicleNumber v" for w
    using that by (auto simp: filter_empty_conv dest: vehicleEntries_number)
  show ?case
  proof (cases "v = u")
    case True
    from Cons.prems have "vehicleNumber u \<notin> vehicleNumber ` set vs" by simp
    then have "\<forall>w \<in> set vs. vehicleNumber w \<noteq> vehicleNumber u"
      by (metis imageI)
    then have "filter (\<lambda>e. vehicleNumber e = vehicleNumber u)
                 (concat (map (\<lambda>w. vehicleEntries now w name) vs)) = []"
      by (auto simp: filter_empty_conv dest: vehicleEntries_number)
    with True show ?thesis by (simp add: own)
  next
    case False
    with Cons.prems have v: "v \<in> set vs" by simp
    from Cons.prems have "vehicleNumber u \<notin> vehicleNumber ` set vs" by simp
    with v have "vehicleNumber u \<noteq> vehicleNumber v"
      by (metis imageI)
    with v Cons show ?thesis by (simp add: other)
  qed
qed

subsection \<open>Matching starts with ends\<close>

lemma map_insort_key: "map f (insort_key f x xs) = insort (f x) (map f xs)"
  by (induction xs) simp_all

lemma map_sort_key: "map f (sort_key f xs) = sort (map f xs)"
  by (induction xs) (simp_all add: map_insort_key)

lemma find_later_sorted:
  assumes "sorted (map timestamp ends)"
  shows "find (\<lambda>e. timestamp e > t) ends = None \<longleftrightarrow> \<not> list_ex (\<lambda>e. timestamp e > t) ends"
    and "find (\<lambda>e. timestamp e > t) ends = Some e
           \<Longrightarrow> timestamp e = Min (set (filter (\<lambda>t'. t' > t) (map timestamp ends)))"
proof -
  show "find (\<lambda>e. timestamp e > t) ends = None \<longleftrightarrow> \<not> list_ex (\<lambda>e. timestamp e > t) ends"
    by (auto simp: find_None_iff list_ex_iff)
  assume f: "find (\<lambda>e. timestamp e > t) ends = Some e"
  then have ex: "\<exists>x \<in> set (map timestamp ends). x > t"
    by (auto simp: find_Some_iff)
  have "find (\<lambda>x. x > t) (map timestamp ends)
          = map_option timestamp (find (\<lambda>e. timestamp e > t) ends)"
    by (induction ends) simp_all
  with f have "find (\<lambda>x. x > t) (map timestamp ends) = Some (timestamp e)" by simp
  moreover from sorted_find_Min [OF assms ex]
  have "find (\<lambda>x. x > t) (map timestamp ends)
          = Some (Min {x \<in> set (map timestamp ends). x > t})" .
  ultimately show "timestamp e = Min (set (filter (\<lambda>t'. t' > t) (map timestamp ends)))"
    by simp
qed

lemma recordStage_details:
  assumes "sorted (map timestamp ends)"
  shows "details (recordStage vn ends b s) =
           details b @ (if hasLaterEnd ends s then [stageDetail vn ends s] else [])"
proof (cases "find (\<lambda>e. timestamp e > timestamp s) ends")
  case None
  with find_later_sorted(1) [OF assms, of "timestamp s"] show ?thesis
    by (simp add: recordStage_def hasLaterEnd_def)
next
  case (Some e)
  from find_later_sorted(2) [OF assms Some]
  have t: "timestamp e = leastLaterEnd ends s" by (simp add: leastLaterEnd_def)
  from Some find_later_sorted(1) [OF assms, of "timestamp s"]
  have "hasLaterEnd ends s" by (simp add: hasLaterEnd_def)
  with Some t show ?thesis
    by (simp add: recordStage_def Let_def stageDetail_def)
qed

lemma foldl_recordStage_details:
  assumes "sorted (map timestamp ends)"
  shows "details (foldl (recordStage vn ends) b starts) =
           details b @ map (stageDetail vn ends) (filter (hasLaterEnd ends) starts)"
  by (induction starts arbitrary: b) (simp_all add: recordStage_details [OF assms])

lemma hasLaterEnd_set: "set ends = set ends' \<Longrightarrow> hasLaterEnd ends s = hasLaterEnd ends' s"
  by (simp add: hasLaterEnd_def list_ex_iff)

lemma stageDetail_set: "set ends = set ends' \<Longrightarrow> stageDetail vn ends s = stageDetail vn ends' s"
  by (simp add: stageDetail_def leastLaterEnd_def)

lemma stageStep_other: "name' \<noteq> name \<Longrightarrow> stageStep start end' v result name name' = result name'"
  by (simp add: stageStep_def Let_def)

lemma stageStep_details:
  "details (stageStep start end' v result name name) =
     details (result name) @
       map (stageDetail (vehicleNumber v) (eventsOf name End start end' v))
         (filter (hasLaterEnd (eventsOf name End start end' v))
            (sort_key timestamp (eventsOf name Start start end' v)))"
proof -
  let ?inStage = "filter (\<lambda>s. stageName s = Some name \<and> timestamp s \<ge> start \<and> timestamp s \<le> end')
                    (stages v)"
  let ?ends = "filter (\<lambda>e. eventType e = Some End) (sort_key timestamp ?inStage)"
  let ?starts = "filter (\<lambda>e. eventType e = Some Start) (sort_key timestamp ?inStage)"
  have sorted: "sorted (map timestamp ?ends)"
    by (simp add: filter_sort)
  have ends: "set ?ends = set (eventsOf name End start end' v)"
    by (auto simp: eventsOf_def inWindow_def)
  have starts: "?starts = sort_key timestamp (eventsOf name Start start end' v)"
    unfolding filter_sort eventsOf_def inWindow_def filter_filter
    by (rule arg_cong [where f = "sort_key timestamp"], rule filter_cong) auto
  have "details (stageStep start end' v result name name) =
          details (result name) @
            map (stageDetail (vehicleNumber v) ?ends) (filter (hasLaterEnd ?ends) ?starts)"
    by (simp add: stageStep_def Let_def foldl_recordStage_details [OF sorted])
  also have "map (stageDetail (vehicleNumber v) ?ends) (filter (hasLaterEnd ?ends) ?starts)
               = map (stageDetail (vehicleNumber v) (eventsOf name End start end' v))
                   (filter (hasLaterEnd (eventsOf name End start end' v)) ?starts)"
    using hasLaterEnd_set [OF ends] stageDetail_set [OF ends] by (simp cong: filter_cong)
  finally show ?thesis by (simp only: starts)
qed

subsection \<open>Counts and totals against details\<close>

lemma tallied_empty: "tallied emptyStageData"
  by (simp add: tallied_def emptyStageData_def)

lemma tallied_recordStage: "tallied b \<Longrightarrow> tallied (recordStage vn ends b s)"
  by (simp add: tallied_def recordStage_def Let_def spanOf_def split: option.splits)

lemma tallied_foldl_recordStage: "tallied b \<Longrightarrow> tallied (foldl (recordStage vn ends) b starts)"
  by (induction starts arbitrary: b) (simp_all add: tallied_recordStage)

lemma tallied_stageStep:
  "\<forall>n. tallied (result n) \<Longrightarrow> tallied (stageStep start end' v result name n)"
  by (simp add: stageStep_def Let_def tallied_foldl_recordStage)

lemma tallied_stageSteps:
  "\<forall>n. tallied (result n) \<Longrightarrow> tallied (foldl (stageStep start end' v) result names n)"
  by (induction names arbitrary: result n) (simp_all add: tallied_stageStep)

lemma tallied_stageTotals: "tallied (stageTotals start end' vehicles name)"
proof -
  have "\<forall>n. tallied (result n) \<Longrightarrow>
          tallied (foldl (\<lambda>result v. foldl (stageStep start end' v) result trackedStages)
                     result vehicles n)" for result n
    by (induction vehicles arbitrary: result n) (simp_all add: tallied_stageSteps)
  then show ?thesis
    by (simp add: stageTotals_def tallied_empty)
qed

subsection \<open>The special stages on events that have their names\<close>

lemma startedAfter_named:
  "stageName s \<noteq> None \<Longrightarrow> startedAfter p t s = Inr (isStartAfter p t s)"
  by (auto simp: startedAfter_def isStartAfter_def startsWith_def)

lemma startedBefore_named:
  "stageName s \<noteq> None \<Longrightarrow> startedBefore p t s = Inr (isStartBefore p t s)"
  by (auto simp: startedBefore_def isStartBefore_def startsWith_def)

lemma startOfPrefix_named:
  "stageName s \<noteq> None \<Longrightarrow> startOfPrefix p s = Inr (isStartOfPrefix p s)"
  by (auto simp: startOfPrefix_def isStartOfPrefix_def startsWith_def)

lemma startOfPrefix_missing: "stageName s = None \<Longrightarrow> startOfPrefix p s = Inl TypeError"
  by (simp add: startOfPrefix_def startsWith_def)

lemma filterE_startedAfter:
  "\<forall>s \<in> set xs. stageName s \<noteq> None \<Longrightarrow>
   filterE (startedAfter p t) xs = Inr (filter (isStartAfter p t) xs)"
  by (rule filterE_total) (simp add: startedAfter_named)

lemma findE_startedAfter:
  "\<forall>s \<in> set xs. stageName s \<noteq> None \<Longrightarrow>
   findE (startedAfter p t) xs = Inr (find (isStartAfter p t) xs)"
  by (rule findE_total) (simp add: startedAfter_named)

lemma findE_startedBefore:
  "\<forall>s \<in> set xs. stageName s \<noteq> None \<Longrightarrow>
   findE (startedBefore p t) xs = Inr (find (isStartBefore p t) xs)"
  by (rule findE_total) (simp add: startedBefore_named)

lemma filterE_startOfPrefix:
  "\<forall>s \<in> set xs. stageName s \<noteq> None \<Longrightarrow>
   filterE (startOfPrefix p) xs = Inr (filter (isStartOfPrefix p) xs)"
  by (rule filterE_total) (simp add: startOfPrefix_named)

text \<open>The second element of a sorted list of events carries the second least timestamp.\<close>

lemma second_of_sorted:
  assumes "2 \<le> length xs"
  shows "sort_key timestamp xs ! 1 \<in> set xs"
    and "timestamp (sort_key timestamp xs ! 1) = sort (map timestamp xs) ! 1"
proof -
  from assms have l: "1 < length (sort_key timestamp xs)" by simp
  then have "sort_key timestamp xs ! 1 \<in> set (sort_key timestamp xs)"
    by (rule nth_mem)
  then show "sort_key timestamp xs ! 1 \<in> set xs" by simp
  from l have "map timestamp (sort_key timestamp xs) ! 1 = timestamp (sort_key timestamp xs ! 1)"
    by (rule nth_map)
  then show "timestamp (sort_key timestamp xs ! 1) = sort (map timestamp xs) ! 1"
    by (simp add: map_sort_key)
qed

lemma addSpecial_fields:
  "count (addSpecial vn s e b) = count b + 1"
  "totalDurationMs (addSpecial vn s e b) = totalDurationMs b + (timestamp e - timestamp s)"
  "details (addSpecial vn s e b) =
     details b @ [\<lparr>vehicleNumber = vn, startTime = timestamp s, endTime = timestamp e,
                   duration = formatDuration (of_int (timestamp e - timestamp s))\<rparr>]"
  by (simp_all add: addSpecial_def Let_def)

text \<open>The approval step on the sorted events of a window.\<close>

lemma additionalApprovalStep_sorted:
  assumes "\<forall>s \<in> set inRange. stageName s \<noteq> None"
  shows "additionalApprovalStep vn (sort_key timestamp inRange) startEvent result =
           Inr (if 2 \<le> length (laterAllocations inRange startEvent)
                then result(''Additional Work Job Approval'' :=
                       addSpecial vn startEvent
                         (sort_key timestamp (laterAllocations inRange startEvent) ! 1)
                         (result ''Additional Work Job Approval''))
                else result)"
proof -
  from assms have "\<forall>s \<in> set (sort_key timestamp inRange). stageName s \<noteq> None" by simp
  from filterE_startedAfter [OF this]
  have "filterE (startedAfter ''Job Card Received + Bay Allocation'' (timestamp startEvent))
          (sort_key timestamp inRange)
        = Inr (sort_key timestamp (laterAllocations inRange startEvent))"
    by (simp add: laterAllocations_def filter_sort)
  then show ?thesis
    by (simp add: additionalApprovalStep_def Let_def)
qed

lemma approval_details:
  assumes "2 \<le> length (laterAllocations inRange s)"
  shows "details (addSpecial vn s (sort_key timestamp (laterAllocations inRange s) ! 1) b)
           = details b @ [approvalDetail vn inRange s]"
  using second_of_sorted(2) [OF assms]
  by (simp add: addSpecial_fields approvalDetail_def secondAllocation_def)

subsection \<open>Counts and totals of the special stages\<close>

lemma tallied_addSpecial: "tallied b \<Longrightarrow> tallied (addSpecial vn s e b)"
  by (simp add: tallied_def addSpecial_fields spanOf_def)

lemma tallied_finishSpecial: "tallied b \<Longrightarrow> tallied (finishSpecial b)"
  by (simp add: tallied_def finishSpecial_def Let_def)

lemma forEachE_invariant:
  assumes "forEachE f xs s = Inr s'" and "P s"
    and "\<And>x a b. P a \<Longrightarrow> f x a = Inr b \<Longrightarrow> P b"
  shows "P s'"
  using assms(1,2)
proof (induction xs arbitrary: s)
  case Nil
  then show ?case by simp
next
  case (Cons x xs)
  from Cons.prems(1) obtain a where a: "f x s = Inr a" and r: "forEachE f xs a = Inr s'"
    by (auto simp: bindE_eq_Inr)
  from assms(3) [OF Cons.prems(2) a] have "P a" .
  with r show ?case by (rule Cons.IH)
qed

lemma foldl_invariant:
  assumes "P s" and "\<And>a x. P a \<Longrightarrow> P (f a x)"
  shows "P (foldl f s xs)"
  using assms(1) by (induction xs arbitrary: s) (simp_all add: assms(2))

text \<open>
  Whatever \<open>addSpecial\<close> preserves holds of every bucket after a vehicle, after all
  vehicles, and also after the averages are filled in if \<open>finishSpecial\<close> preserves it.
\<close>

lemma preserved_jobCardCreationStep:
  assumes "\<And>vn s e b. P b \<Longrightarrow> P (addSpecial vn s e b)"
  shows "\<forall>n. P (r n) \<Longrightarrow> jobCardCreationStep vn vs s r = Inr r' \<Longrightarrow> \<forall>n. P (r' n)"
  by (auto simp: jobCardCreationStep_def bindE_eq_Inr assms split: option.splits)

lemma preserved_additionalApprovalStep:
  assumes "\<And>vn s e b. P b \<Longrightarrow> P (addSpecial vn s e b)"
  shows "\<forall>n. P (r n) \<Longrightarrow> additionalApprovalStep vn vs s r = Inr r' \<Longrightarrow> \<forall>n. P (r' n)"
  by (auto simp: additionalApprovalStep_def bindE_eq_Inr Let_def assms split: if_splits)

lemma preserved_readyForWashingStep:
  assumes "\<And>vn s e b. P b \<Longrightarrow> P (addSpecial vn s e b)"
  shows "\<forall>n. P (r n) \<Longrightarrow> \<forall>n. P (readyForWashingStep vn vs r s n)"
  by (auto simp: readyForWashingStep_def assms split: option.splits)

lemma preserved_specialVehicle:
  assumes add: "\<And>vn s e b. P b \<Longrightarrow> P (addSpecial vn s e b)"
    and "\<forall>n. P (r n)" and "specialVehicle start end' v r = Inr r'"
  shows "\<forall>n. P (r' n)"
proof -
  let ?vs = "sort_key timestamp (filter (inWindow start end') (stages v))"
  let ?vn = "vehicleNumber v"
  from assms(3) obtain r1 starts r2 where
    s1: "forEachE (jobCardCreationStep ?vn ?vs)
           (filter (\<lambda>s. stageName s = Some ''Job Card Creation + Customer Approval''
                        \<and> eventType s = Some Start) ?vs) r = Inr r1"
    and s2: "forEachE (additionalApprovalStep ?vn ?vs) starts r1 = Inr r2"
    and s3: "r' = foldl (readyForWashingStep ?vn ?vs) r2
                    (filter (\<lambda>s. stageName s = Some ''Ready for Washing''
                                 \<and> eventType s = Some Start) ?vs)"
    by (auto simp: specialVehicle_def Let_def bindE_eq_Inr)
  have t1: "\<forall>n. P (r1 n)"
    by (rule forEachE_invariant [where P = "\<lambda>r. \<forall>n. P (r n)", OF s1 assms(2)])
       (rule preserved_jobCardCreationStep [where P = P, OF add])
  have t2: "\<forall>n. P (r2 n)"
    by (rule forEachE_invariant [where P = "\<lambda>r. \<forall>n. P (r n)", OF s2 t1])
       (rule preserved_additionalApprovalStep [where P = P, OF add])
  show ?thesis
    unfolding s3
    by (rule foldl_invariant [where P = "\<lambda>r. \<forall>n. P (r n)", OF t2])
       (rule preserved_readyForWashingStep [where P = P, OF add])
qed

lemma preserved_specialVehicles:
  assumes add: "\<And>vn s e b. P b \<Longrightarrow> P (addSpecial vn s e b)"
    and "P emptySpecialData"
    and "forEachE (specialVehicle start end') vehicles (\<lambda>_. emptySpecialData) = Inr r"
  shows "P (r name)"
proof -
  have "\<forall>n. P ((\<lambda>_. emptySpecialData) n)"
    using assms(2) by simp
  then have "\<forall>n. P (r n)"
    by (rule forEachE_invariant [where P = "\<lambda>r. \<forall>n. P (r n)", OF assms(3)])
       (rule preserved_specialVehicle [where P = P, OF add])
  then show ?thesis by simp
qed

lemma unformatted_addSpecial: "unformatted b \<Longrightarrow> unformatted (addSpecial vn s e b)"
  by (simp add: unformatted_def addSpecial_def Let_def)

lemma finish_each_special:
  "name \<in> set specialStages \<Longrightarrow>
   foldl (\<lambda>r name. r(name := finishSpecial (r name))) r specialStages name
     = finishSpecial (r name)"
  by (auto simp: specialStages_def)

text \<open>The bucket of a special stage in the result of a period.\<close>

lemma specialTotals_bucket:
  assumes "specialTotals start end' vehicles = Inr result" and "name \<in> set specialStages"
  shows "\<exists>b. result name = finishSpecial b \<and> tallied b \<and> unformatted b"
proof -
  from assms(1) obtain r where
    r: "forEachE (specialVehicle start end') vehicles (\<lambda>_. emptySpecialData) = Inr r"
    and res: "result = foldl (\<lambda>r name. r(name := finishSpecial (r name))) r specialStages"
    by (auto simp: specialTotals_def bindE_eq_Inr)
  have t: "tallied (r name)"
  proof (rule preserved_specialVehicles [where P = tallied, OF _ _ r])
    show "tallied (addSpecial vn s e b)" if "tallied b" for vn s e b
      using that by (rule tallied_addSpecial)
    show "tallied emptySpecialData"
      by (simp add: tallied_def emptySpecialData_def)
  qed
  have u: "unformatted (r name)"
  proof (rule preserved_specialVehicles [where P = unformatted, OF _ _ r])
    show "unformatted (addSpecial vn s e b)" if "unformatted b" for vn s e b
      using that by (rule unformatted_addSpecial)
    show "unformatted emptySpecialData"
      by (simp add: unformatted_def emptySpecialData_def)
  qed
  from t u show ?thesis
    unfolding res finish_each_special [OF assms(2)] by blast
qed

lemma finishSpecial_fields:
  assumes "tallied b" and "unformatted b"
  shows "count (finishSpecial b) = length (details (finishSpecial b))"
    and "totalDurationMs (finishSpecial b) = sum_list (map spanOf (details (finishSpecial b)))"
    and "totalDurationFormatted (finishSpecial b)
           = formatDuration (of_int (totalDurationMs (finishSpecial b)))"
    and "averageFormatted (finishSpecial b) =
           (if count (finishSpecial b) > 0
            then formatDuration (of_int (totalDurationMs (finishSpecial b))
                                   / of_nat (count (finishSpecial b)))
            else ''00:00:00'')"
  using assms
  by (auto simp: tallied_def unformatted_def finishSpecial_def Let_def formatDuration_zero)

subsection \<open>What one vehicle adds to the approval bucket\<close>

lemma jobCardCreationStep_named:
  assumes "\<forall>s \<in> set vs. stageName s \<noteq> None"
  shows "\<exists>r'. jobCardCreationStep vn vs s r = Inr r'
              \<and> r' ''Additional Work Job Approval'' = r ''Additional Work Job Approval''"
  by (simp add: jobCardCreationStep_def findE_startedAfter [OF assms] split: option.splits)

lemma jobCardCreation_loop_named:
  assumes "\<forall>s \<in> set vs. stageName s \<noteq> None"
  shows "\<exists>r'. forEachE (jobCardCreationStep vn vs) starts r = Inr r'
              \<and> r' ''Additional Work Job Approval'' = r ''Additional Work Job Approval''"
proof (induction starts arbitrary: r)
  case Nil
  show ?case by simp
next
  case (Cons s starts)
  from jobCardCreationStep_named [OF assms, of vn s r] obtain r1 where
    r1: "jobCardCreationStep vn vs s r = Inr r1"
    and k1: "r1 ''Additional Work Job Approval'' = r ''Additional Work Job Approval''"
    by blast
  from Cons.IH [of r1] obtain r' where
    "forEachE (jobCardCreationStep vn vs) starts r1 = Inr r'"
    "r' ''Additional Work Job Approval'' = r1 ''Additional Work Job Approval''"
    by blast
  with r1 k1 show ?case by simp
qed

lemma approval_loop_named:
  assumes "\<forall>s \<in> set inRange. stageName s \<noteq> None"
  shows "\<exists>r'. forEachE (additionalApprovalStep vn (sort_key timestamp inRange)) starts r = Inr r'
              \<and> details (r' ''Additional Work Job Approval'') =
                  details (r ''Additional Work Job Approval'') @
                    map (approvalDetail vn inRange)
                      (filter (\<lambda>s. 2 \<le> length (laterAllocations inRange s)) starts)"
proof (induction starts arbitrary: r)
  case Nil
  show ?case by simp
next
  case (Cons s starts)
  let ?K = "''Additional Work Job Approval''"
  define r1 where
    "r1 = (if 2 \<le> length (laterAllocations inRange s)
           then r(?K := addSpecial vn s (sort_key timestamp (laterAllocations inRange s) ! 1) (r ?K))
           else r)"
  have step: "additionalApprovalStep vn (sort_key timestamp inRange) s r = Inr r1"
    unfolding r1_def by (rule additionalApprovalStep_sorted [OF assms])
  have d1: "details (r1 ?K) =
              details (r ?K) @ (if 2 \<le> length (laterAllocations inRange s)
                                then [approvalDetail vn inRange s] else [])"
  proof (cases "2 \<le> length (laterAllocations inRange s)")
    case True
    from approval_details [OF True, of vn "r ?K"] True show ?thesis
      by (simp add: r1_def)
  next
    case False
    then show ?thesis by (simp add: r1_def)
  qed
  from Cons.IH [of r1] obtain r' where
    "forEachE (additionalApprovalStep vn (sort_key timestamp inRange)) starts r1 = Inr r'"
    "details (r' ?K) = details (r1 ?K) @
        map (approvalDetail vn inRange)
          (filter (\<lambda>s. 2 \<le> length (laterAllocations inRange s)) starts)"
    by blast
  with step d1 show ?case by simp
qed

lemma readyForWashing_loop_other:
  "foldl (readyForWashingStep vn vs) r starts ''Additional Work Job Approval''
     = r ''Additional Work Job Approval''"
  by (induction starts arbitrary: r) (simp_all add: readyForWashingStep_def split: option.splits)

lemma specialVehicle_approvals:
  assumes "\<forall>s \<in> set (stages v). inWindow start end' s \<longrightarrow> stageName s \<noteq> None"
  shows "\<exists>r'. specialVehicle start end' v r = Inr r'
              \<and> details (r' ''Additional Work Job Approval'') =
                  details (r ''Additional Work Job Approval'') @
                    map (approvalDetail (vehicleNumber v) (filter (inWindow start end') (stages v)))
                      (filter (\<lambda>s. 2 \<le> length (laterAllocations
                                                   (filter (inWindow start end') (stages v)) s))
                         (sort_key timestamp
                            (filter (isStartOfPrefix ''Additional Work Job Approval'')
                               (filter (inWindow start end') (stages v)))))"
proof -
  let ?K = "''Additional Work Job Approval''"
  let ?inRange = "filter (inWindow start end') (stages v)"
  let ?vs = "sort_key timestamp ?inRange"
  let ?vn = "vehicleNumber v"
  from assms have n: "\<forall>s \<in> set ?inRange. stageName s \<noteq> None" by simp
  then have n': "\<forall>s \<in> set ?vs. stageName s \<noteq> None" by simp
  from jobCardCreation_loop_named [OF n'] obtain r1 where
    r1: "forEachE (jobCardCreationStep ?vn ?vs)
           (filter (\<lambda>s. stageName s = Some ''Job Card Creation + Customer Approval''
                        \<and> eventType s = Some Start) ?vs) r = Inr r1"
    and k1: "r1 ?K = r ?K"
    by blast
  have starts: "filterE (startOfPrefix ?K) ?vs
                  = Inr (sort_key timestamp (filter (isStartOfPrefix ?K) ?inRange))"
    by (simp add: filterE_startOfPrefix [OF n'] filter_sort)
  from approval_loop_named [OF n] obtain r2 where
    r2: "forEachE (additionalApprovalStep ?vn ?vs)
           (sort_key timestamp (filter (isStartOfPrefix ?K) ?inRange)) r1 = Inr r2"
    and d2: "details (r2 ?K) = details (r1 ?K) @
               map (approvalDetail ?vn ?inRange)
                 (filter (\<lambda>s. 2 \<le> length (laterAllocations ?inRange s))
                    (sort_key timestamp (filter (isStartOfPrefix ?K) ?inRange)))"
    by blast
  have "specialVehicle start end' v r =
          Inr (foldl (readyForWashingStep ?vn ?vs) r2
                 (filter (\<lambda>s. stageName s = Some ''Ready for Washing''
                              \<and> eventType s = Some Start) ?vs))"
    unfolding specialVehicle_def Let_def r1 bindE_Inr starts r2 by (rule refl)
  with d2 k1 show ?thesis
    by (simp add: readyForWashing_loop_other)
qed

subsection \<open>Bay work: the buckets\<close>

lemma balanced_addBay:
  assumes "balanced b" and "active + paused = total'" and "spanOf d = total'"
  shows "balanced (addBay d total' paused active b)"
  using assms by (simp add: balanced_def tallied_def addBay_def)

lemma balanced_recordBay:
  assumes "balanced (fst buckets)" and "balanced (snd buckets)"
  shows "balanced (fst (recordBay vn stages' buckets s))
         \<and> balanced (snd (recordBay vn stages' buckets s))"
proof (cases "bayOccurrence stages' s")
  case (fields found paused active)
  show ?thesis
  proof (cases found)
    case None
    with fields assms show ?thesis by (simp add: recordBay_def)
  next
    case (Some e)
    with fields have occ: "bayOccurrence stages' s = (Some e, paused, active)" by simp
    from bayOccurrence_closed(1) [OF occ]
    have sum: "active + paused = timestamp e - timestamp s" .
    have span: "spanOf \<lparr>vehicleNumber = vn, startTime = timestamp s, endTime = timestamp e,
                         duration = formatDuration (of_int (timestamp e - timestamp s))\<rparr>
                  = timestamp e - timestamp s"
      by (simp add: spanOf_def)
    show ?thesis
      using balanced_addBay [OF assms(1) sum span] balanced_addBay [OF assms(2) sum span]
      by (simp add: recordBay_def occ Let_def)
  qed
qed

lemma balanced_recordBay_loop:
  assumes "balanced (fst buckets)" and "balanced (snd buckets)"
  shows "balanced (fst (foldl (recordBay vn stages') buckets starts))
         \<and> balanced (snd (foldl (recordBay vn stages') buckets starts))"
  using assms
proof (induction starts arbitrary: buckets)
  case Nil
  then show ?case by simp
next
  case (Cons s starts)
  from balanced_recordBay [OF Cons.prems, of vn stages' s]
  have "balanced (fst (recordBay vn stages' buckets s))"
    and "balanced (snd (recordBay vn stages' buckets s))" by simp_all
  from Cons.IH [OF this] show ?case by simp
qed

lemma balanced_empty: "balanced emptyBayData"
  by (simp add: balanced_def tallied_def emptyBayData_def)

lemma allBalanced_groupStep:
  assumes "allBalanced r"
  shows "allBalanced (groupStep vn r g)"
proof -
  obtain w b stages' where g: "g = (w, b, stages')" by (cases g)
  define bucket where "bucket = (case byWorkType r w of None \<Rightarrow> emptyBayData | Some d \<Rightarrow> d)"
  from assms have "case byWorkType r w of None \<Rightarrow> True | Some d \<Rightarrow> balanced d"
    by (simp add: allBalanced_def)
  then have b1: "balanced (fst (bucket, overall r))"
    by (simp add: bucket_def balanced_empty split: option.splits)
  from assms have b2: "balanced (snd (bucket, overall r))"
    by (simp add: allBalanced_def)
  note loop = balanced_recordBay_loop [OF b1 b2, of vn stages'
      "filter (\<lambda>s. eventType s = Some Start) stages'"]
  from assms have others: "case byWorkType r w' of None \<Rightarrow> True | Some d \<Rightarrow> balanced d" for w'
    by (simp add: allBalanced_def)
  show ?thesis
    using loop others
    by (simp add: groupStep_def g Let_def allBalanced_def bucket_def [symmetric])
qed

lemma allBalanced_bayVehicle:
  assumes "allBalanced r" and "bayVehicle start end' v r = Inr r'"
  shows "allBalanced r'"
proof -
  from assms(2) obtain groups where "r' = foldl (groupStep (vehicleNumber v)) r groups"
    by (auto simp: bayVehicle_def Let_def bindE_eq_Inr)
  then show ?thesis
    using foldl_invariant [where P = allBalanced and f = "groupStep (vehicleNumber v)",
        OF assms(1) allBalanced_groupStep]
    by simp
qed

lemma allBalanced_bayTotals:
  assumes "bayTotals start end' vehicles = Inr r"
  shows "allBalanced r"
proof -
  have "allBalanced \<lparr>byWorkType = Map.empty, overall = emptyBayData\<rparr>"
    by (simp add: allBalanced_def balanced_empty)
  then show ?thesis
    by (rule forEachE_invariant [where P = allBalanced, OF assms [unfolded bayTotals_def]])
       (rule allBalanced_bayVehicle)
qed

lemma bayWorkMetrics_totals:
  assumes "bayWorkMetricsOfPeriod start end' vehicles = Inr out"
  shows "\<exists>r. bayTotals start end' vehicles = Inr r \<and> allBalanced r
             \<and> overall out = formatBay (overall r)
             \<and> (\<forall>w. byWorkType out w = map_option formatBay (byWorkType r w))"
proof -
  from assms obtain r where r: "bayTotals start end' vehicles = Inr r"
    and out: "out = \<lparr>byWorkType = (\<lambda>w. map_option formatBay (byWorkType r w)),
                     overall = formatBay (overall r)\<rparr>"
    by (auto simp: bayWorkMetricsOfPeriod_def bindE_eq_Inr)
  from allBalanced_bayTotals [OF r] r out show ?thesis by (intro exI [of _ r]) simp
qed

subsection \<open>Bay work: events without a work type or a bay number\<close>

lemma groupStage_skips: "\<not> hasBay s \<Longrightarrow> groupStage groups s = groups"
  by (auto simp: groupStage_def hasBay_def split: option.splits)

lemma workGroups_skip:
  "foldl groupStage groups (filter hasBay xs) = foldl groupStage groups xs"
  by (induction xs arbitrary: groups) (simp_all add: groupStage_skips)

lemma bayVehicle_skips:
  assumes "\<forall>s \<in> set (stages v). stageName s \<noteq> None"
  shows "bayVehicle start end' (v\<lparr>stages := filter hasBay (stages v)\<rparr>) r
           = bayVehicle start end' v r"
proof -
  let ?p = "\<lambda>s. bindE (startsWith (stageName s) ''Bay Work:'')
                   (\<lambda>b. Inr (b \<and> timestamp s \<ge> start \<and> timestamp s \<le> end'))"
  let ?q = "\<lambda>s. (case stageName s of None \<Rightarrow> False | Some n \<Rightarrow> prefix ''Bay Work:'' n)
                 \<and> timestamp s \<ge> start \<and> timestamp s \<le> end'"
  have pq: "?p s = Inr (?q s)" if "stageName s \<noteq> None" for s
    using that by (auto simp: startsWith_def)
  have all: "filterE ?p (stages v) = Inr (filter ?q (stages v))"
    by (rule filterE_total) (simp add: assms pq)
  have some: "filterE ?p (filter hasBay (stages v)) = Inr (filter ?q (filter hasBay (stages v)))"
    by (rule filterE_total) (simp add: assms pq)
  have "workGroupsOf (sort_key timestamp (filter ?q (filter hasBay (stages v))))
          = workGroupsOf (filter hasBay (sort_key timestamp (filter ?q (stages v))))"
    unfolding filter_sort
    by (rule arg_cong [where f = "\<lambda>xs. workGroupsOf (sort_key timestamp xs)"])
       (simp, rule filter_cong, auto)
  also have "\<dots> = workGroupsOf (sort_key timestamp (filter ?q (stages v)))"
    by (simp add: workGroupsOf_def workGroups_skip)
  finally have groups:
    "workGroupsOf (sort_key timestamp (filter ?q (filter hasBay (stages v))))
       = workGroupsOf (sort_key timestamp (filter ?q (stages v)))" .
  have "bayVehicle start end' (v\<lparr>stages := filter hasBay (stages v)\<rparr>) r
          = Inr (foldl (groupStep (vehicleNumber v)) r
                   (map snd (workGroupsOf
                      (sort_key timestamp (filter ?q (filter hasBay (stages v)))))))"
    by (simp add: bayVehicle_def Let_def some del: filter_filter)
  moreover have "bayVehicle start end' v r
          = Inr (foldl (groupStep (vehicleNumber v)) r
                   (map snd (workGroupsOf (sort_key timestamp (filter ?q (stages v))))))"
    by (simp add: bayVehicle_def Let_def all del: filter_filter)
  ultimately show ?thesis
    by (simp only: groups)
qed

subsection \<open>Job-card metrics: the details and the final formatting\<close>

lemma findE_Some: "findE p xs = Inr (Some x) \<Longrightarrow> p x = Inr True"
proof (induction xs)
  case Nil
  then show ?case by simp
next
  case (Cons a xs)
  then show ?case
    by (cases "p a") (auto split: if_splits)
qed

lemma startedAfter_True: "startedAfter p t s = Inr True \<Longrightarrow> timestamp s > t"
  by (auto simp: startedAfter_def bindE_eq_Inr)

lemma startedBefore_True: "startedBefore p t s = Inr True \<Longrightarrow> timestamp s < t"
  by (auto simp: startedBefore_def bindE_eq_Inr)

lemma measured_intervalDetail:
  "timestamp a \<le> timestamp b \<Longrightarrow> measured (intervalDetail vn a b)"
  by (simp add: measured_def intervalDetail_def Let_def spanOf_def)

lemma collecting_pushDetail: "collecting b \<Longrightarrow> measured d \<Longrightarrow> collecting (pushDetail d b)"
  by (simp add: collecting_def pushDetail_def)

lemma allCollecting_bayAllocationStep:
  assumes "allCollecting r" and "bayAllocationStep vn vs s r = Inr r'"
  shows "allCollecting r'"
proof -
  from assms(2) obtain found where
    f: "findE (startedAfter ''Bay Work'' (timestamp s)) vs = Inr found"
    and r': "r' = (case found of None \<Rightarrow> r
                   | Some e \<Rightarrow> r\<lparr>jobCardReceivedBayAllocation :=
                        pushDetail (intervalDetail vn s e) (jobCardReceivedBayAllocation r)\<rparr>)"
    by (auto simp: bayAllocationStep_def bindE_eq_Inr split: option.splits)
  show ?thesis
  proof (cases found)
    case None
    with r' assms(1) show ?thesis by simp
  next
    case (Some e)
    from startedAfter_True [OF findE_Some [OF f [unfolded Some]]]
    have "timestamp s \<le> timestamp e" by simp
    from measured_intervalDetail [OF this, of vn] assms(1) show ?thesis
      by (simp add: r' Some allCollecting_def collecting_pushDetail)
  qed
qed

lemma allCollecting_technicianStep:
  assumes "allCollecting r" and "technicianStep vn vs s r = Inr r'"
  shows "allCollecting r'"
proof -
  from assms(2) obtain found where
    f: "findE (startedBefore ''Job Card Received + Bay Allocation'' (timestamp s)) vs = Inr found"
    and r': "r' = (case found of None \<Rightarrow> r
                   | Some e \<Rightarrow> r\<lparr>jobCardReceivedByTechnician :=
                        pushDetail (intervalDetail vn e s) (jobCardReceivedByTechnician r)\<rparr>)"
    by (auto simp: technicianStep_def bindE_eq_Inr split: option.splits)
  show ?thesis
  proof (cases found)
    case None
    with r' assms(1) show ?thesis by simp
  next
    case (Some e)
    from startedBefore_True [OF findE_Some [OF f [unfolded Some]]]
    have "timestamp e \<le> timestamp s" by simp
    from measured_intervalDetail [OF this, of vn] assms(1) show ?thesis
      by (simp add: r' Some allCollecting_def collecting_pushDetail)
  qed
qed

lemma allCollecting_fiStep:
  assumes "allCollecting r"
  shows "allCollecting (fiStep vn vs r s)"
proof (cases "find (\<lambda>e. stageName e = Some ''Job Card Received (by Technician)''
                          \<and> eventType e = Some Start \<and> timestamp e < timestamp s) vs")
  case None
  with assms show ?thesis by (simp add: fiStep_def)
next
  case (Some e)
  then have "timestamp e \<le> timestamp s"
    by (auto simp: find_Some_iff)
  from measured_intervalDetail [OF this, of vn] assms show ?thesis
    by (simp add: fiStep_def Some allCollecting_def collecting_pushDetail)
qed

lemma allCollecting_jobCardVehicle:
  assumes "allCollecting r" and "jobCardVehicle start end' v r = Inr r'"
  shows "allCollecting r'"
proof -
  let ?vs = "filter (inWindow start end') (stages v)"
  let ?vn = "vehicleNumber v"
  from assms(2) obtain starts r1 r2 where
    s1: "forEachE (bayAllocationStep ?vn ?vs) starts r = Inr r1"
    and s2: "forEachE (technicianStep ?vn ?vs)
               (filter (\<lambda>s. stageName s = Some ''Job Card Received (by Technician)''
                            \<and> eventType s = Some Start) ?vs) r1 = Inr r2"
    and s3: "r' = foldl (fiStep ?vn ?vs) r2
                    (filter (\<lambda>s. stageName s = Some ''Job Card Received (by FI)''
                                 \<and> eventType s = Some Start) ?vs)"
    by (auto simp: jobCardVehicle_def Let_def bindE_eq_Inr)
  have t1: "allCollecting r1"
    by (rule forEachE_invariant [where P = allCollecting, OF s1 assms(1)])
       (rule allCollecting_bayAllocationStep)
  have t2: "allCollecting r2"
    by (rule forEachE_invariant [where P = allCollecting, OF s2 t1])
       (rule allCollecting_technicianStep)
  show ?thesis
    unfolding s3
    by (rule foldl_invariant [where P = allCollecting, OF t2]) (rule allCollecting_fiStep)
qed

lemma addNumber_Some: "addNumber (Some a) (Some b) = Some (a + b)"
  by (simp add: addNumber_def)

lemma totalOfDetails_measured:
  assumes "list_all measured items"
  shows "totalOfDetails items = Some (truncatedTotal items)"
proof -
  have "foldl (\<lambda>sum d. addNumber sum (detailMs (duration d))) (Some a) items
          = Some (a + truncatedTotal items)" for a
    using assms
  proof (induction items arbitrary: a)
    case Nil
    show ?case by (simp add: truncatedTotal_def)
  next
    case (Cons d items)
    from Cons.prems have m: "measured d" and rest: "list_all measured items" by simp_all
    from m have "detailMs (duration d) = Some (spanOf d div 1000 * 1000)"
      using detailMs_formatDuration [of "of_int (spanOf d)"]
      by (simp add: measured_def floor_of_int_div_1000)
    with Cons.IH [OF rest, of "a + spanOf d div 1000 * 1000"] show ?case
      by (simp add: addNumber_Some truncatedTotal_def)
  qed
  from this [of 0] show ?thesis by (simp add: totalOfDetails_def)
qed

text \<open>A bucket after the final formatting.\<close>

lemma finishJobCard_fields:
  assumes "collecting b"
  shows "details (finishJobCard b) = details b"
    and "count (finishJobCard b) = length (details b)"
    and "totalDuration (finishJobCard b) = formatDuration (of_int (truncatedTotal (details b)))"
    and "average (finishJobCard b) =
           (if length (details b) > 0
            then formatDuration (of_int (truncatedTotal (details b)) / of_nat (length (details b)))
            else ''00:00:00'')"
proof -
  from assms have m: "list_all measured (details b)" by (simp add: collecting_def)
  note t = totalOfDetails_measured [OF m]
  have empty: "truncatedTotal [] = 0" by (simp add: truncatedTotal_def)
  show "details (finishJobCard b) = details b"
    by (simp add: finishJobCard_def Let_def)
  show "count (finishJobCard b) = length (details b)"
    using assms by (auto simp: finishJobCard_def Let_def collecting_def)
  show "totalDuration (finishJobCard b) = formatDuration (of_int (truncatedTotal (details b)))"
    using assms
    by (auto simp: finishJobCard_def Let_def collecting_def t formatNumber_def empty
        formatDuration_zero)
  show "average (finishJobCard b) =
          (if length (details b) > 0
           then formatDuration (of_int (truncatedTotal (details b)) / of_nat (length (details b)))
           else ''00:00:00'')"
    using assms
    by (auto simp: finishJobCard_def Let_def collecting_def t formatNumber_def)
qed

lemma jobCardMetrics_buckets:
  assumes "jobCardMetricsOfPeriod start end' vehicles = Inr out"
  shows "\<exists>r. allCollecting r
             \<and> jobCardReceivedBayAllocation out = finishJobCard (jobCardReceivedBayAllocation r)
             \<and> jobCardReceivedByTechnician out = finishJobCard (jobCardReceivedByTechnician r)
             \<and> jobCardReceivedByFI out = finishJobCard (jobCardReceivedByFI r)"
proof -
  from assms obtain r where
    r: "forEachE (jobCardVehicle start end') vehicles emptyJobCardResult = Inr r"
    and out: "out = \<lparr>jobCardReceivedBayAllocation = finishJobCard (jobCardReceivedBayAllocation r),
                     jobCardReceivedByTechnician = finishJobCard (jobCardReceivedByTechnician r),
                     jobCardReceivedByFI = finishJobCard (jobCardReceivedByFI r)\<rparr>"
    by (auto simp: jobCardMetricsOfPeriod_def bindE_eq_Inr)
  have "allCollecting emptyJobCardResult"
    by (simp add: allCollecting_def collecting_def emptyJobCardResult_def emptyReport_def)
  then have "allCollecting r"
    by (rule forEachE_invariant [where P = allCollecting, OF r])
       (rule allCollecting_jobCardVehicle)
  with out show ?thesis by (intro exI [of _ r]) simp
qed

subsection \<open>The window generator and the clock\<close>

lemma getDateRanges_readings:
  assumes "clock' k' = clock k" and "clock' (k' + 1) = clock (k + 1)"
    and "clock' (k' + 2) = clock (k + 2)" and "clock' (k' + 3) = clock (k + 3)"
  shows "fst (getDateRanges tz clock' k') = fst (getDateRanges tz clock k)"
  using assms by (simp add: getDateRanges_def Let_def)

lemma getDateRanges_fields:
  "snd (getDateRanges tz clock k) = k + 4"
  "rangeStart (fst (getDateRanges tz clock k) today) = setHours0 tz (clock k)"
  "rangeEnd (fst (getDateRanges tz clock k) today) = clock (k + 1)"
  "rangeEnd (fst (getDateRanges tz clock k) thisWeek) = clock (k + 2)"
  "rangeEnd (fst (getDateRanges tz clock k) thisMonth) = clock (k + 3)"
  by (simp_all add: getDateRanges_def Let_def)

lemma metricsRoute_ranges:
  "fst (getDateRanges tz clock' k') = fst (getDateRanges tz clock k)
     \<Longrightarrow> metricsRoute tz clock' k' db metricType = metricsRoute tz clock k db metricType"
  by (simp add: metricsRoute_def Let_def)

subsection \<open>Malformed events\<close>

text \<open>The stage averages never look at an event without a name or without a type.\<close>

lemma filter_sorted_wellFormed:
  assumes "\<And>s. Q s \<Longrightarrow> P s \<Longrightarrow> wellFormed s"
  shows "filter Q (sort_key timestamp (filter P (filter wellFormed xs)))
           = filter Q (sort_key timestamp (filter P xs))"
  unfolding filter_sort filter_filter
  by (rule arg_cong [where f = "sort_key timestamp"], rule filter_cong) (auto dest: assms)

lemma stageStep_dropMalformed:
  "stageStep start end' (dropMalformed v) result name = stageStep start end' v result name"
proof -
  let ?P = "\<lambda>s. stageName s = Some name \<and> timestamp s \<ge> start \<and> timestamp s \<le> end'"
  have s: "filter (\<lambda>e. eventType e = Some Start)
             (sort_key timestamp (filter ?P (filter wellFormed (stages v))))
           = filter (\<lambda>e. eventType e = Some Start) (sort_key timestamp (filter ?P (stages v)))"
    by (rule filter_sorted_wellFormed) (simp add: wellFormed_def)
  have e: "filter (\<lambda>e. eventType e = Some End)
             (sort_key timestamp (filter ?P (filter wellFormed (stages v))))
           = filter (\<lambda>e. eventType e = Some End) (sort_key timestamp (filter ?P (stages v)))"
    by (rule filter_sorted_wellFormed) (simp add: wellFormed_def)
  have "stageStep start end' (dropMalformed v) result name =
          result(name := foldl (recordStage (vehicleNumber v)
                   (filter (\<lambda>e. eventType e = Some End)
                      (sort_key timestamp (filter ?P (filter wellFormed (stages v))))))
                 (result name)
                 (filter (\<lambda>e. eventType e = Some Start)
                    (sort_key timestamp (filter ?P (filter wellFormed (stages v))))))"
    by (simp add: stageStep_def Let_def dropMalformed_def del: filter_filter)
  also have "\<dots> = stageStep start end' v result name"
    unfolding s e by (simp add: stageStep_def Let_def del: filter_filter)
  finally show ?thesis .
qed

lemma stageSteps_dropMalformed:
  "foldl (stageStep start end' (dropMalformed v)) result names
     = foldl (stageStep start end' v) result names"
  by (induction names arbitrary: result) (simp_all add: stageStep_dropMalformed)

lemma stageTotals_dropMalformed:
  "stageTotals start end' (map dropMalformed vehicles) = stageTotals start end' vehicles"
proof -
  have "foldl (\<lambda>result v. foldl (stageStep start end' v) result trackedStages) result
          (map dropMalformed vehicles)
        = foldl (\<lambda>result v. foldl (stageStep start end' v) result trackedStages) result vehicles"
    for result
    by (induction vehicles arbitrary: result) (simp_all add: stageSteps_dropMalformed)
  then show ?thesis by (simp add: stageTotals_def)
qed

text \<open>An event without a name in the reach of a prefix test makes the computation throw.\<close>

lemma nameless_member:
  "namelessInWindow start end' v
     \<Longrightarrow> \<exists>s \<in> set (stages v). inWindow start end' s \<and> stageName s = None"
  by (simp add: namelessInWindow_def list_ex_iff)

lemma specialVehicle_throws:
  assumes "namelessInWindow start end' v"
  shows "specialVehicle start end' v r = Inl TypeError"
proof -
  let ?vs = "sort_key timestamp (filter (inWindow start end') (stages v))"
  from nameless_member [OF assms] obtain s where s: "s \<in> set ?vs" "stageName s = None"
    by auto
  have f: "filterE (startOfPrefix ''Additional Work Job Approval'') ?vs = Inl TypeError"
    by (rule filterE_throws [where x = s and e = TypeError, OF s(1)])
       (rule startOfPrefix_missing [OF s(2)])
  show ?thesis
  proof (cases "forEachE (jobCardCreationStep (vehicleNumber v) ?vs)
                  (filter (\<lambda>s. stageName s = Some ''Job Card Creation + Customer Approval''
                               \<and> eventType s = Some Start) ?vs) r")
    case (Inl e)
    then show ?thesis
      by (simp add: specialVehicle_def Let_def only_TypeError [of e] del: filter_filter)
  next
    case (Inr r1)
    then show ?thesis
      by (simp add: specialVehicle_def Let_def f del: filter_filter)
  qed
qed

lemma jobCardVehicle_throws:
  assumes "namelessInWindow start end' v"
  shows "jobCardVehicle start end' v r = Inl TypeError"
proof -
  let ?vs = "filter (inWindow start end') (stages v)"
  from nameless_member [OF assms] obtain s where s: "s \<in> set ?vs" "stageName s = None"
    by auto
  have "filterE (startOfPrefix ''Job Card Received + Bay Allocation'') ?vs = Inl TypeError"
    by (rule filterE_throws [where x = s and e = TypeError, OF s(1)])
       (rule startOfPrefix_missing [OF s(2)])
  then show ?thesis
    by (simp add: jobCardVehicle_def Let_def)
qed

lemma bayVehicle_throws:
  assumes "namelessInWindow start end' v"
  shows "bayVehicle start end' v r = Inl TypeError"
proof -
  from nameless_member [OF assms] obtain s where s: "s \<in> set (stages v)" "stageName s = None"
    by auto
  have "filterE (\<lambda>s. bindE (startsWith (stageName s) ''Bay Work:'')
                        (\<lambda>b. Inr (b \<and> timestamp s \<ge> start \<and> timestamp s \<le> end')))
          (stages v) = Inl TypeError"
    by (rule filterE_throws [where x = s and e = TypeError, OF s(1)])
       (simp add: s(2) startsWith_missing)
  then show ?thesis
    by (simp add: bayVehicle_def)
qed

lemma batch_throws:
  assumes "list_ex (namelessInWindow start end') vehicles"
  shows "specialAveragesOfPeriod start end' vehicles = Inl TypeError"
    and "jobCardMetricsOfPeriod start end' vehicles = Inl TypeError"
    and "bayWorkMetricsOfPeriod start end' vehicles = Inl TypeError"
proof -
  from assms obtain v where v: "v \<in> set vehicles" "namelessInWindow start end' v"
    by (auto simp: list_ex_iff)
  have "forEachE (specialVehicle start end') vehicles r = Inl TypeError" for r
    by (rule forEachE_throws [OF v(1)]) (rule specialVehicle_throws [OF v(2)])
  then show "specialAveragesOfPeriod start end' vehicles = Inl TypeError"
    by (simp add: specialAveragesOfPeriod_def specialTotals_def)
  have "forEachE (jobCardVehicle start end') vehicles r = Inl TypeError" for r
    by (rule forEachE_throws [OF v(1)]) (rule jobCardVehicle_throws [OF v(2)])
  then show "jobCardMetricsOfPeriod start end' vehicles = Inl TypeError"
    by (simp add: jobCardMetricsOfPeriod_def)
  have "forEachE (bayVehicle start end') vehicles r = Inl TypeError" for r
    by (rule forEachE_throws [OF v(1)]) (rule bayVehicle_throws [OF v(2)])
  then show "bayWorkMetricsOfPeriod start end' vehicles = Inl TypeError"
    by (simp add: bayWorkMetricsOfPeriod_def bayTotals_def)
qed

text \<open>An exception in one period is the exception of the whole computation and of the route.\<close>

lemma forPeriods_throws: "f p = Inl TypeError \<Longrightarrow> forPeriods f = Inl TypeError"
proof -
  assume p: "f p = Inl TypeError"
  have any: "x = Inl TypeError \<or> (\<exists>y. x = Inr y)" for x :: "error + 'a"
    by (cases x) (simp_all add: only_TypeError)
  show ?thesis
    using p any [of "f today"] any [of "f thisWeek"] any [of "f thisMonth"] any [of "f lastMonth"]
    by (cases p) (auto simp: forPeriods_def)
qed

lemma metricsRoute_throws:
  assumes "calculateSpecialStageAverages db (fst (getDateRanges tz clock k)) = Inl TypeError"
    and "metricType = ''all'' \<or> metricType = ''special-stage-averages''"
  shows "metricsRoute tz clock k db metricType = Response500 TypeError"
proof -
  have "requested metricType ''stage-averages''
          (Inr (calculateStageAverages db (fst (getDateRanges tz clock k))) :: error + _)
        = Inr None
        \<or> requested metricType ''stage-averages''
            (Inr (calculateStageAverages db (fst (getDateRanges tz clock k))) :: error + _)
          = Inr (Some (calculateStageAverages db (fst (getDateRanges tz clock k))))"
    by (simp add: requested_def)
  moreover have "requested metricType ''special-stage-averages''
                   (calculateSpecialStageAverages db (fst (getDateRanges tz clock k)))
                 = Inl TypeError"
    using assms by (simp add: requested_def)
  ultimately show ?thesis
    by (auto simp: metricsRoute_def Let_def)
qed

subsection \<open>The duration formatter\<close>

text \<open>
  Claim C9. For every non-negative duration in milliseconds, \<open>formatDuration\<close> returns
  three fields separated by colons: hours, minutes and seconds. Every field consists of
  decimal digits and has at least two of them (minutes and seconds exactly two), minutes
  and seconds are below 60, the three fields together encode the input truncated to whole
  seconds, and the hours field is the whole number of hours of the input, however large:
  nothing wraps at 24.
\<close>

theorem formatDuration_hh_mm_ss:
  assumes "0 \<le> ms"
  shows "\<exists>h m s.
           formatDuration ms = h @ '':'' @ m @ '':'' @ s
         \<and> splitOn (CHR '':'') (formatDuration ms) = [h, m, s]
         \<and> list_all isDigit h \<and> list_all isDigit m \<and> list_all isDigit s
         \<and> 2 \<le> length h \<and> length m = 2 \<and> length s = 2
         \<and> decimalValue m < 60 \<and> decimalValue s < 60
         \<and> int (decimalValue h) * 3600 + int (decimalValue m) * 60 + int (decimalValue s)
             = \<lfloor>ms / 1000\<rfloor>
         \<and> int (decimalValue h) = \<lfloor>ms / 3600000\<rfloor>"
proof -
  define T where "T = \<lfloor>ms / 1000\<rfloor>"
  define H where "H = T div 3600"
  define M where "M = (T mod 3600) div 60"
  define S where "S = T mod 60"
  have T0: "0 \<le> T" using assms by (simp add: T_def)
  have H0: "0 \<le> H" and M0: "0 \<le> M" and S0: "0 \<le> S"
    using T0 by (simp_all add: H_def M_def S_def pos_imp_zdiv_nonneg_iff)
  have M60: "M < 60" and S60: "S < 60"
    by (simp_all add: M_def S_def)
  have sum: "H * 3600 + M * 60 + S = T"
    unfolding H_def M_def S_def by (rule hms_nonneg(4) [OF T0])
  have fmt: "formatDuration ms = field2 H @ '':'' @ field2 M @ '':'' @ field2 S"
    unfolding H_def M_def S_def T_def by (rule formatDuration_nonneg(1) [OF assms])
  have split: "splitOn (CHR '':'') (formatDuration ms) = [field2 H, field2 M, field2 S]"
    unfolding H_def M_def S_def T_def by (rule formatDuration_nonneg(2) [OF assms])
  have "ms / 3600000 = ms / 1000 / of_int 3600" by simp
  then have hours: "\<lfloor>ms / 3600000\<rfloor> = H"
    unfolding H_def T_def by (simp only: floor_divide_pos [of 3600 "ms / 1000"] zero_less_numeral)
  have vM: "decimalValue (field2 M) < 60" and vS: "decimalValue (field2 S) < 60"
    using field2_value [OF M0] field2_value [OF S0] M60 S60 by linarith+
  show ?thesis
    apply (rule exI [of _ "field2 H"], rule exI [of _ "field2 M"], rule exI [of _ "field2 S"])
    using fmt split H0 M0 S0 M60 S60 sum hours vM vS
    by (simp add: field2_digits field2_value field2_length field2_length_small T_def)
qed

theorem formatDuration_hh_mm_ss_witness:
  "((0::rat) \<le> 360000000
    \<and> (\<exists>h m s.
           formatDuration 360000000 = h @ '':'' @ m @ '':'' @ s
         \<and> splitOn (CHR '':'') (formatDuration 360000000) = [h, m, s]
         \<and> list_all isDigit h \<and> list_all isDigit m \<and> list_all isDigit s
         \<and> 2 \<le> length h \<and> length m = 2 \<and> length s = 2
         \<and> decimalValue m < 60 \<and> decimalValue s < 60
         \<and> int (decimalValue h) * 3600 + int (decimalValue m) * 60 + int (decimalValue s)
             = \<lfloor>(360000000::rat) / 1000\<rfloor>
         \<and> int (decimalValue h) = \<lfloor>(360000000::rat) / 3600000\<rfloor>))
   \<and> formatDuration 360000000 = ''100:00:00''"
proof -
  have h: "(0::rat) \<le> 360000000" by simp
  have v: "formatDuration 360000000 = ''100:00:00''" by code_simp
  show ?thesis
    using conjI [OF h formatDuration_hh_mm_ss [OF h]] v by (rule conjI)
qed

subsection \<open>Several starts of one stage\<close>




subsection \<open>Additional Work Job Approval: closed by the second bay allocation\<close>



subsection \<open>Bay work: active and paused time\<close>

text \<open>
  Claim C3. For every \<^verbatim>\<open>Start\<close> event of a bay-work group for which the walk over the
  later \<^verbatim>\<open>Pause\<close>, \<^verbatim>\<open>Resume\<close> and \<^verbatim>\<open>End\<close> events finds an \<^verbatim>\<open>End\<close>, the accumulated
  active time plus the accumulated paused time is exactly the timestamp of that \<^verbatim>\<open>End\<close>
  minus the timestamp of the \<^verbatim>\<open>Start\<close>, which is the total the code reports; the event
  found is an \<^verbatim>\<open>End\<close> event of the group, later than the \<^verbatim>\<open>Start\<close>.
\<close>

theorem bayOccurrence_active_plus_paused:
  assumes "bayOccurrence stages' startEvent = (Some endEvent, paused, active)"
  shows "active + paused = timestamp endEvent - timestamp startEvent
         \<and> endEvent \<in> set stages' \<and> eventType endEvent = Some End
         \<and> timestamp endEvent > timestamp startEvent"
  using bayOccurrence_closed [OF assms] by simp

text \<open>
  The scenario of the specification: Start at 09:00, Pause at 09:20, Resume at 09:30, End
  at 10:00 gives 50 minutes active, 10 minutes paused and 60 minutes in total.
\<close>

theorem bayOccurrence_active_plus_paused_witness:
  "bayOccurrence dentingStages (bayEvent Start 32400000)
     = (Some (bayEvent End 36000000), 600000, 3000000)
   \<and> (3000000::int) + 600000
       = timestamp (bayEvent End 36000000) - timestamp (bayEvent Start 32400000)"
proof -
  have e: "bayOccurrence dentingStages (bayEvent Start 32400000)
             = (Some (bayEvent End 36000000), 600000, 3000000)"
    by code_simp
  from bayOccurrence_active_plus_paused [OF e] e show ?thesis by simp
qed

subsection \<open>The order of the event array\<close>

text \<open>
  Claim C2 says that the reconstructed intervals do not depend on the order of the event
  array. The stage averages, the special stage averages and the bay-work metrics sort the
  events by timestamp before they match them; the job-card metrics only filter them, and
  \<^verbatim>\<open>find\<close> then returns the first match in array order. Here the same three events in
  two array orders give two different intervals for the bay allocation at 1000: it is closed
  at 5500 in one order and at 3500 in the other.
\<close>

theorem job_card_intervals_depend_on_array_order:
  "stages jobCarB = rev (stages jobCarA)
   \<and> vehicleNumber jobCarB = vehicleNumber jobCarA
   \<and> details (jobCardReceivedBayAllocation (projr (jobCardMetricsOfPeriod 0 10000 [jobCarA])))
       = [\<lparr>vehicleNumber = ''V3'', startTime = 1000, endTime = 5500, duration = ''00:00:04''\<rparr>]
   \<and> details (jobCardReceivedBayAllocation (projr (jobCardMetricsOfPeriod 0 10000 [jobCarB])))
       = [\<lparr>vehicleNumber = ''V3'', startTime = 1000, endTime = 3500, duration = ''00:00:02''\<rparr>]"
proof -
  have a: "stages jobCarB = rev (stages jobCarA)"
    by (simp add: jobCarA_def jobCarB_def car_def)
  have b: "vehicleNumber jobCarB = vehicleNumber jobCarA"
    by (simp add: jobCarA_def jobCarB_def car_def)
  have c: "details (jobCardReceivedBayAllocation
                      (projr (jobCardMetricsOfPeriod 0 10000 [jobCarA])))
             = [\<lparr>vehicleNumber = ''V3'', startTime = 1000, endTime = 5500,
                  duration = ''00:00:04''\<rparr>]"
    by code_simp
  have d: "details (jobCardReceivedBayAllocation
                      (projr (jobCardMetricsOfPeriod 0 10000 [jobCarB])))
             = [\<lparr>vehicleNumber = ''V3'', startTime = 1000, endTime = 3500,
                  duration = ''00:00:02''\<rparr>]"
    by code_simp
  from a b c d show ?thesis by (intro conjI)
qed

subsection \<open>Averages\<close>




subsection \<open>The live view: one open entry for a vehicle and a stage\<close>

text \<open>
  Claim C10. In the live-status view, for every active vehicle (no exit time) and every
  stage key, the entries of the stage-wise map that carry the vehicle's number under that
  key are at most one, however many starts of that stage without a later end the vehicle
  has: the entry is the one of the earliest such start (the first of them when they are
  sorted by timestamp), no entry is stored when there is none, and every other open start
  of that stage is left out. Vehicle numbers identify vehicles: the active vehicles have
  distinct numbers.
\<close>

theorem live_status_earliest_open_start_only:
  assumes "distinct (map vehicleNumber (filter (\<lambda>v. exitTime v = None) db))"
    and "v \<in> set db" and "exitTime v = None"
  shows "filter (\<lambda>e. vehicleNumber e = vehicleNumber v) (entriesOf (liveStageStatus now db) name)
           = (case sort_key timestamp (openStarts v name) of
                [] \<Rightarrow> [] | s # _ \<Rightarrow> [liveEntryFor now (vehicleNumber v) s])
         \<and> length (filter (\<lambda>e. vehicleNumber e = vehicleNumber v)
                     (entriesOf (liveStageStatus now db) name)) \<le> 1
         \<and> (\<forall>e \<in> set (filter (\<lambda>e. vehicleNumber e = vehicleNumber v)
                           (entriesOf (liveStageStatus now db) name)).
              \<forall>s \<in> set (openStarts v name). startedAt e \<le> timestamp s)"
proof -
  let ?active = "filter (\<lambda>v. exitTime v = None) db"
  let ?own = "filter (\<lambda>e. vehicleNumber e = vehicleNumber v)
                (entriesOf (liveStageStatus now db) name)"
  from assms(2,3) have v: "v \<in> set ?active" by simp
  have none: "entriesOf Map.empty name = []"
    by (simp add: entriesOf_def)
  have "entriesOf (liveStageStatus now db) name
          = concat (map (\<lambda>u. vehicleEntries now u name) ?active)"
    by (simp add: liveStageStatus_def entriesOf_vehicles none)
  then have own: "?own = vehicleEntries now v name"
    using filter_own_entries [OF assms(1) v] by simp
  have first: "?own = (case sort_key timestamp (openStarts v name) of
                         [] \<Rightarrow> [] | s # _ \<Rightarrow> [liveEntryFor now (vehicleNumber v) s])"
    unfolding own vehicleEntries_def ..
  have len: "length ?own \<le> 1"
    unfolding first by (simp split: list.splits)
  have least: "startedAt e \<le> timestamp s"
    if e: "e \<in> set ?own" and s: "s \<in> set (openStarts v name)" for e s
  proof (cases "sort_key timestamp (openStarts v name)")
    case Nil
    with e first show ?thesis by simp
  next
    case (Cons s0 rest)
    with e first have e0: "startedAt e = timestamp s0"
      by (simp add: liveEntryFor_def Let_def)
    have "sorted (map timestamp (sort_key timestamp (openStarts v name)))"
      by simp
    with Cons have "\<forall>t \<in> set (map timestamp (s0 # rest)). timestamp s0 \<le> t"
      by auto
    moreover have "s \<in> set (s0 # rest)"
      using s Cons set_sort [of timestamp "openStarts v name"] by simp
    ultimately have "timestamp s0 \<le> timestamp s" by auto
    with e0 show ?thesis by simp
  qed
  from first len least show ?thesis by blast
qed

text \<open>
  A vehicle with three starts of Washing, at 3000, 1000 and 5000, and one end at 2000: the
  starts at 3000 and 5000 are open and only the one at 3000 is reported.
\<close>

theorem live_status_earliest_open_start_only_witness:
  "distinct (map vehicleNumber (filter (\<lambda>v. exitTime v = None) liveDb))
   \<and> liveCar \<in> set liveDb \<and> exitTime liveCar = None
   \<and> length (filter (\<lambda>e. vehicleNumber e = vehicleNumber liveCar)
               (entriesOf (liveStageStatus 10000 liveDb) ''Washing'')) \<le> 1
   \<and> map startedAt (filter (\<lambda>e. vehicleNumber e = vehicleNumber liveCar)
                       (entriesOf (liveStageStatus 10000 liveDb) ''Washing'')) = [3000]
   \<and> map timestamp (openStarts liveCar ''Washing'') = [3000, 5000]"
proof -
  have h1: "distinct (map vehicleNumber (filter (\<lambda>v. exitTime v = None) liveDb))"
    by code_simp
  have h2: "liveCar \<in> set liveDb"
    by (simp add: liveDb_def)
  have h3: "exitTime liveCar = None"
    by (simp add: liveCar_def car_def)
  have v: "map startedAt (filter (\<lambda>e. vehicleNumber e = vehicleNumber liveCar)
                            (entriesOf (liveStageStatus 10000 liveDb) ''Washing'')) = [3000]"
    by code_simp
  have o: "map timestamp (openStarts liveCar ''Washing'') = [3000, 5000]"
    by code_simp
  from live_status_earliest_open_start_only [OF h1 h2 h3, of 10000 "''Washing''"]
  have "length (filter (\<lambda>e. vehicleNumber e = vehicleNumber liveCar)
                  (entriesOf (liveStageStatus 10000 liveDb) ''Washing'')) \<le> 1"
    by (rule conjunct1 [OF conjunct2])
  with h1 h2 h3 v o show ?thesis by (intro conjI)
qed

subsection \<open>Counts and totals against the details\<close>




subsection \<open>The window generator and the clock\<close>




subsection \<open>Malformed events and exceptions\<close>





end
